theory Spec2Isabelle
  imports Main "HOL-Library.Char_ord" "HOL-Library.List_Lexorder" "HOL-Library.AList"
    "HOL-Library.Multiset"
begin

section \<open>The tree model\<close>

text \<open>
  The trees that \<^verbatim>\<open>yaml.safe_load\<close> hands to the scripts: strings, integers, booleans,
  \<^verbatim>\<open>None\<close>, lists and dictionaries with string keys. A dictionary is an association
  list in insertion order, as the order of a Python \<^verbatim>\<open>dict\<close> is what
  \<^verbatim>\<open>yaml.safe_dump(..., sort_keys=False)\<close> writes. Strings are lists of characters
  read as ASCII text. Floating-point numbers are left out, and values are trees: no node
  is shared between two places, and no tree is so deep that the interpreter's recursion
  limit comes into play.
\<close>

datatype val =
    VStr string
  | VInt int
  | VBool bool
  | VNull
  | VList "val list"
  | VDict "(string \<times> val) list"

type_synonym dict = "(string \<times> val) list"

datatype error = TypeError | ValueError | AttributeError | KeyError | FileNotFoundError | ParseError

fun is_str :: "val \<Rightarrow> bool" where
  "is_str (VStr s) = True"
| "is_str v = False"

fun is_list :: "val \<Rightarrow> bool" where
  "is_list (VList xs) = True"
| "is_list v = False"

fun is_dict :: "val \<Rightarrow> bool" where
  "is_dict (VDict d) = True"
| "is_dict v = False"

fun the_str :: "val \<Rightarrow> string" where
  "the_str (VStr s) = s"
| "the_str v = []"


text \<open>The scalars reachable from a tree.\<close>

fun scalars :: "val \<Rightarrow> val set" where
  "scalars (VList xs) = (\<Union>x \<in> set xs. scalars x)"
| "scalars (VDict d) = (\<Union>kv \<in> set d. scalars (snd kv))"
| "scalars v = {v}"

section \<open>Python's string operations\<close>

text \<open>\<^verbatim>\<open>str.lower()\<close> on ASCII text.\<close>

definition lower_char :: "char \<Rightarrow> char" where
  "lower_char c =
     (if CHR ''A'' \<le> c \<and> c \<le> CHR ''Z'' then char_of (of_char c + (32::nat)) else c)"

definition lower :: "string \<Rightarrow> string" where
  "lower s = map lower_char s"

text \<open>
  \<^verbatim>\<open>str(i)\<close> for an integer: decimal digits, with a minus sign. The conversion
  raises \<^verbatim>\<open>ValueError\<close> when the integer has more digits than
  \<^verbatim>\<open>sys.get_int_max_str_digits()\<close>, 4300 unless the interpreter is told otherwise.
\<close>

definition digit_char :: "nat \<Rightarrow> char" where
  "digit_char d = char_of (48 + d)"

function digits :: "nat \<Rightarrow> string" where
  "digits n = (if n < 10 then [digit_char n] else digits (n div 10) @ [digit_char (n mod 10)])"
  by pat_completeness auto
termination
  by (relation "measure id") auto

definition int_max_str_digits :: nat where
  "int_max_str_digits = 4300"

definition str_int :: "int \<Rightarrow> error + string" where
  "str_int i =
     (let ds = digits (nat \<bar>i\<bar>) in
      if int_max_str_digits < length ds then Inl ValueError
      else Inr (if i < 0 then CHR ''-'' # ds else ds))"

text \<open>
  \<^verbatim>\<open>repr(s)\<close> for a string: double quotes when the text holds a single quote and no
  double quote, single quotes otherwise; the quote and the backslash are escaped, control
  characters are written as \<^verbatim>\<open>\t\<close>, \<^verbatim>\<open>\n\<close>, \<^verbatim>\<open>\r\<close> or \<^verbatim>\<open>\xhh\<close>.
\<close>

definition hex_char :: "nat \<Rightarrow> char" where
  "hex_char d = (if d < 10 then char_of (48 + d) else char_of (87 + d))"

definition repr_char :: "char \<Rightarrow> char \<Rightarrow> string" where
  "repr_char q c =
     (if c = q \<or> c = CHR 0x5C then [CHR 0x5C, c]
      else if c = CHR 0x09 then [CHR 0x5C, CHR ''t'']
      else if c = CHR 0x0A then [CHR 0x5C, CHR ''n'']
      else if c = CHR 0x0D then [CHR 0x5C, CHR ''r'']
      else if (of_char c :: nat) < 32 \<or> c = CHR 0x7F
        then [CHR 0x5C, CHR ''x'', hex_char (of_char c div 16), hex_char (of_char c mod 16)]
      else [c])"

definition repr_str :: "string \<Rightarrow> string" where
  "repr_str s =
     (let q = (if CHR 0x27 \<in> set s \<and> CHR 0x22 \<notin> set s then CHR 0x22 else CHR 0x27)
      in [q] @ concat (map (repr_char q) s) @ [q])"

text \<open>\<^verbatim>\<open>', '.join(parts)\<close> and the general \<^verbatim>\<open>sep.join(parts)\<close>.\<close>

fun join :: "string \<Rightarrow> string list \<Rightarrow> string" where
  "join sep [] = []"
| "join sep [x] = x"
| "join sep (x # y # ys) = x @ sep @ join sep (y # ys)"

text \<open>The values of a list of outcomes, or the first error among them.\<close>

fun collect :: "(error + 'a) list \<Rightarrow> error + 'a list" where
  "collect [] = Inr []"
| "collect (r # rs) =
     (case r of
        Inl e \<Rightarrow> Inl e
      | Inr v \<Rightarrow> (case collect rs of Inl e \<Rightarrow> Inl e | Inr vs \<Rightarrow> Inr (v # vs)))"

text \<open>
  \<^verbatim>\<open>repr(v)\<close> and \<^verbatim>\<open>str(v)\<close>: they differ on strings only. The rendering of a
  list or a dictionary renders every value in it, and so raises when one of them does.
\<close>

fun py_repr :: "val \<Rightarrow> error + string" where
  "py_repr (VStr s) = Inr (repr_str s)"
| "py_repr (VInt i) = str_int i"
| "py_repr (VBool b) = Inr (if b then ''True'' else ''False'')"
| "py_repr VNull = Inr ''None''"
| "py_repr (VList xs) =
     (case collect (map py_repr xs) of
        Inl e \<Rightarrow> Inl e
      | Inr parts \<Rightarrow> Inr (''['' @ join '', '' parts @ '']''))"
| "py_repr (VDict d) =
     (case collect (map (\<lambda>kv. case py_repr (snd kv) of
                                  Inl e \<Rightarrow> Inl e
                                | Inr r \<Rightarrow> Inr (repr_str (fst kv) @ '': '' @ r)) d) of
        Inl e \<Rightarrow> Inl e
      | Inr parts \<Rightarrow> Inr (''{'' @ join '', '' parts @ ''}''))"

fun py_str :: "val \<Rightarrow> error + string" where
  "py_str (VStr s) = Inr s"
| "py_str v = py_repr v"

section \<open>Python's comparisons\<close>

text \<open>
  \<^verbatim>\<open>a == b\<close>: booleans are the integers 0 and 1, lists are equal element by element,
  dictionaries are equal when they have the same keys with equal values, whatever the
  order.
\<close>

fun num_of :: "val \<Rightarrow> int option" where
  "num_of (VInt i) = Some i"
| "num_of (VBool b) = Some (if b then 1 else 0)"
| "num_of v = None"

fun py_eq :: "val \<Rightarrow> val \<Rightarrow> bool" where
  "py_eq (VStr a) w = (case w of VStr b \<Rightarrow> a = b | _ \<Rightarrow> False)"
| "py_eq (VInt a) w = (num_of w = Some a)"
| "py_eq (VBool a) w = (num_of w = num_of (VBool a))"
| "py_eq VNull w = (w = VNull)"
| "py_eq (VList xs) w = (case w of VList ys \<Rightarrow> list_all2 py_eq xs ys | _ \<Rightarrow> False)"
| "py_eq (VDict d) w =
     (case w of
        VDict e \<Rightarrow> length d = length e \<and>
          list_all (\<lambda>kv. case map_of e (fst kv) of None \<Rightarrow> False
                                | Some u \<Rightarrow> py_eq (snd kv) u) d
      | _ \<Rightarrow> False)"

text \<open>
  \<^verbatim>\<open>sorted(xs, key=key)\<close> for a key that yields strings: the key of every element
  is computed first, and an error of the key escapes; the elements are then sorted
  stably by their keys, and two strings always compare.
\<close>

definition py_sorted :: "('a \<Rightarrow> error + string) \<Rightarrow> 'a list \<Rightarrow> error + 'a list" where
  "py_sorted key xs =
     (case collect (map key xs) of
        Inl e \<Rightarrow> Inl e
      | Inr ks \<Rightarrow> Inr (map snd (sort_key fst (zip ks xs))))"

section \<open>extract_yaml.py: canonical order and merge\<close>

text \<open>
  \<^verbatim>\<open>sort_dict\<close>. The dictionary comprehension walks the keys in case-insensitive order
  and looks each one up; as the keys of a dictionary are distinct, that visits the items
  in the stable order of their lowercased keys. For a list, the key of the sort is
  \<^verbatim>\<open>str(x).lower()\<close>; the handler catches \<^verbatim>\<open>TypeError\<close> only, so that
  the \<^verbatim>\<open>ValueError\<close> of a rendering escapes.
\<close>

definition str_key :: "val \<Rightarrow> error + string" where
  "str_key x = (case py_str x of Inl e \<Rightarrow> Inl e | Inr s \<Rightarrow> Inr (lower s))"

fun sort_dict :: "val \<Rightarrow> error + val" where
  "sort_dict (VDict d) =
     (case collect (map (\<lambda>kv. case sort_dict (snd kv) of
                                  Inl e \<Rightarrow> Inl e
                                | Inr v \<Rightarrow> Inr (fst kv, v))
                        (sort_key (\<lambda>kv. lower (fst kv)) d)) of
        Inl e \<Rightarrow> Inl e
      | Inr items \<Rightarrow> Inr (VDict items))"
| "sort_dict (VList xs) =
     (case collect (map sort_dict xs) of
        Inl e \<Rightarrow> Inl e
      | Inr lst \<Rightarrow>
          (case py_sorted str_key lst of
             Inr s \<Rightarrow> Inr (VList s)
           | Inl e \<Rightarrow> if e = TypeError then Inr (VList lst) else Inl e))"
| "sort_dict v = Inr v"

text \<open>
  \<^verbatim>\<open>merge_lists\<close>. In the first branch every element is a string, so
  \<^verbatim>\<open>x.lower()\<close> (\<open>lkey\<close>) is only ever applied to a string. \<open>lower_index\<close> is
  the dictionary \<^verbatim>\<open>mapping\<close> after the two loops: assigning to a key that is
  present replaces its value in place, assigning to a new key appends it.
  \<open>append_unique\<close> is the list \<^verbatim>\<open>merged\<close> of the second branch after its loop;
  the handler of that branch catches every exception of the sort and keeps the list as
  the loop left it.
\<close>

definition lkey :: "val \<Rightarrow> string" where
  "lkey x = lower (the_str x)"

definition lower_index :: "val list \<Rightarrow> val list \<Rightarrow> dict" where
  "lower_index old_list new_list =
     fold (\<lambda>x m. if map_of m (lkey x) = None then AList.update (lkey x) x m else m) new_list
       (fold (\<lambda>x m. AList.update (lkey x) x m) old_list [])"

definition append_unique :: "val list \<Rightarrow> val list \<Rightarrow> val list" where
  "append_unique old_list new_list =
     fold (\<lambda>item m. if \<not> list_ex (\<lambda>existing_item. py_eq item existing_item) m
                      then m @ [item] else m)
       new_list old_list"

definition merge_lists :: "val list \<Rightarrow> val list \<Rightarrow> val list" where
  "merge_lists old_list new_list =
     (if list_all is_str (old_list @ new_list) then
        sort_key lkey (map snd (lower_index old_list new_list))
      else
        let merged = append_unique old_list new_list
        in case py_sorted str_key merged of Inr s \<Rightarrow> s | Inl e \<Rightarrow> merged)"

text \<open>
  \<^verbatim>\<open>merge_yaml\<close>. \<open>merge_items\<close> is the loop over \<^verbatim>\<open>new.items()\<close>, which
  updates \<^verbatim>\<open>existing\<close> in place; \<open>merge_yaml\<close> then sorts the items by lowercased
  key. A nested call mutates the old dictionary where it sits, so the key keeps its
  position.
\<close>

fun merge_yaml :: "dict \<Rightarrow> dict \<Rightarrow> dict"
  and merge_items :: "dict \<Rightarrow> dict \<Rightarrow> dict" where
  "merge_yaml existing new = sort_key (\<lambda>kv. lower (fst kv)) (merge_items existing new)"
| "merge_items existing [] = existing"
| "merge_items existing ((key, new_val) # rest) =
     merge_items
       (case map_of existing key of
          Some old_val \<Rightarrow>
            (case old_val of
               VDict od \<Rightarrow>
                 (case new_val of
                    VDict nd \<Rightarrow> AList.update key (VDict (merge_yaml od nd)) existing
                  | _ \<Rightarrow> existing)
             | VList ol \<Rightarrow>
                 (case new_val of
                    VList nl \<Rightarrow> AList.update key (VList (merge_lists ol nl)) existing
                  | _ \<Rightarrow> existing)
             | _ \<Rightarrow> AList.update key new_val existing)
        | None \<Rightarrow> AList.update key new_val existing)
       rest"

section \<open>What the specification says, for comparison\<close>

text \<open>
  The rule of the specification for string lists: the index is filled from the existing
  list and then from the incoming list, never overwriting a key, so that the first entry
  seen for a lowercase key is the one kept.
\<close>

definition first_seen :: "val list \<Rightarrow> val list \<Rightarrow> string \<Rightarrow> val option" where
  "first_seen old_list new_list k = find (\<lambda>y. lkey y = k) (old_list @ new_list)"

section \<open>Auxiliary notions for the proofs\<close>

text \<open>An index whose keys are distinct and are the lowercase forms of its values.\<close>

definition keyed :: "dict \<Rightarrow> bool" where
  "keyed m = (distinct (map fst m) \<and> (\<forall>kv \<in> set m. fst kv = lkey (snd kv)))"

text \<open>
  The value \<^verbatim>\<open>existing[key]\<close> after one step of the loop of \<open>merge_yaml\<close>, for a key
  that is present; the entry of the result for an entry of the existing dictionary.
\<close>

fun merge_value :: "val \<Rightarrow> val \<Rightarrow> val" where
  "merge_value (VDict od) (VDict nd) = VDict (merge_yaml od nd)"
| "merge_value (VDict od) new_val = VDict od"
| "merge_value (VList ol) (VList nl) = VList (merge_lists ol nl)"
| "merge_value (VList ol) new_val = VList ol"
| "merge_value old_val new_val = new_val"

definition set_at :: "string \<Rightarrow> val \<Rightarrow> string \<times> val \<Rightarrow> string \<times> val" where
  "set_at key v kv = (if fst kv = key then (key, v) else kv)"

definition merged_entry :: "dict \<Rightarrow> string \<times> val \<Rightarrow> string \<times> val" where
  "merged_entry items kv =
     (fst kv, case map_of items (fst kv) of None \<Rightarrow> snd kv | Some nv \<Rightarrow> merge_value (snd kv) nv)"



text \<open>The key of the sort for a value that \<^verbatim>\<open>str\<close> renders.\<close>

definition the_key :: "val \<Rightarrow> string" where
  "the_key x = (case str_key x of Inl e \<Rightarrow> [] | Inr s \<Rightarrow> s)"



section \<open>Files, text and the publishing of constants\<close>

text \<open>
  The file system is a flat map from paths to the text of the file; a path can always be
  written. Reading a file in text mode translates its line ends (\<open>read_file\<close>); writing
  leaves the text as it is, as on a POSIX system. What the scripts print is not part of
  the state. The functions of PyYAML, zlib,
  base64 and pathlib that the scripts call are parameters, collected in \<open>lib\<close>:
  \<open>safe_load\<close> is \<^verbatim>\<open>yaml.safe_load\<close> on the text of a file, \<open>safe_dump\<close> is
  \<^verbatim>\<open>yaml.safe_dump(obj, allow_unicode=True, sort_keys=False)\<close>, \<open>zlib_b64\<close> is
  \<^verbatim>\<open>base64.b64encode(zlib.compress(s.encode('utf-8'))).decode('ascii')\<close> and
  \<open>with_suffix_empty\<close> is \<^verbatim>\<open>str(Path(p).with_suffix(''))\<close>.
  \<^verbatim>\<open>update_blobs.py\<close> lies beside the two extraction scripts, so that its import succeeds.
\<close>

type_synonym path = string

type_synonym fs = "path \<rightharpoonup> string"

record lib =
  safe_load :: "string \<Rightarrow> error + val"
  safe_dump :: "val \<Rightarrow> string"
  zlib_b64 :: "string \<Rightarrow> string"
  with_suffix_empty :: "path \<Rightarrow> path"

definition HAS_UPDATE_BLOBS :: bool where
  "HAS_UPDATE_BLOBS = True"

text \<open>
  Characters are bytes; \<open>is_space\<close> is the ASCII part of what \<^verbatim>\<open>str.strip\<close> removes and
  of what \<^verbatim>\<open>\s\<close> matches, \<open>is_digit\<close> the ASCII part of \<^verbatim>\<open>\d\<close>.
  \<open>universal_newlines\<close> is the translation of line ends that \<^verbatim>\<open>open(p, 'r')\<close> makes:
  a carriage return, alone or before a line feed, is read as a line feed. \<open>read_lines\<close> cuts
  the text that was read at its line feeds; it differs from the lines that iterating
  over a file yields only in the terminators and in a last empty piece, which the caller
  strips and drops.
\<close>

definition is_space :: "char \<Rightarrow> bool" where
  "is_space c = (let n = (of_char c :: nat) in (9 \<le> n \<and> n \<le> 13) \<or> (28 \<le> n \<and> n \<le> 32))"

definition is_digit :: "char \<Rightarrow> bool" where
  "is_digit c = (let n = (of_char c :: nat) in 48 \<le> n \<and> n \<le> 57)"

fun universal_newlines :: "string \<Rightarrow> string" where
  "universal_newlines (c # d # cs) =
     (if c = CHR 0x0D \<and> d = CHR 0x0A then CHR 0x0A # universal_newlines cs
      else if c = CHR 0x0D then CHR 0x0A # universal_newlines (d # cs)
      else c # universal_newlines (d # cs))"
| "universal_newlines [c] = [if c = CHR 0x0D then CHR 0x0A else c]"
| "universal_newlines [] = []"

definition read_file :: "fs \<Rightarrow> path \<Rightarrow> string option" where
  "read_file fs p = map_option universal_newlines (fs p)"

definition strip :: "string \<Rightarrow> string" where
  "strip s = rev (dropWhile is_space (rev (dropWhile is_space s)))"

fun splitp :: "(char \<Rightarrow> bool) \<Rightarrow> string \<Rightarrow> string list" where
  "splitp P [] = [[]]"
| "splitp P (c # cs) =
     (if P c then [] # splitp P cs
      else (case splitp P cs of l # ls \<Rightarrow> (c # l) # ls | [] \<Rightarrow> [[c]]))"

definition read_lines :: "string \<Rightarrow> string list" where
  "read_lines content = splitp (\<lambda>c. c = CHR 0x0A) content"

definition rsplit_dot_head :: "string \<Rightarrow> string" where
  "rsplit_dot_head s =
     (if CHR ''.'' \<in> set s then rev (tl (dropWhile (\<lambda>c. c \<noteq> CHR ''.'') (rev s))) else s)"

fun truthy :: "string option \<Rightarrow> bool" where
  "truthy None = False"
| "truthy (Some s) = (s \<noteq> [])"

fun py_truthy :: "val \<Rightarrow> bool" where
  "py_truthy (VStr s) = (s \<noteq> [])"
| "py_truthy (VInt n) = (n \<noteq> 0)"
| "py_truthy (VBool b) = b"
| "py_truthy VNull = False"
| "py_truthy (VList xs) = (xs \<noteq> [])"
| "py_truthy (VDict d) = (d \<noteq> [])"

text \<open>
  The regular expression \<^verbatim>\<open>(const\s+NAME\s*=\s*)'([^']*)';\<close> of
  \<open>update_blob_constant\<close>, as a backtracking matcher: a piece maps a text to the remainders
  it can leave, in the order in which the regular expression engine tries them (the
  longest repetition first). \<open>match_here\<close> gives the text of group 1 and the length of the
  first match that starts at the head of the text; \<open>re_sub\<close> replaces every match from
  left to right, \<open>skip\<close> counting the characters of a match still to be passed over. The
  replacement is inserted literally: the compressed value is base64 text and holds no
  backslash.
\<close>

fun rems_while :: "(char \<Rightarrow> bool) \<Rightarrow> string \<Rightarrow> string list" where
  "rems_while P [] = [[]]"
| "rems_while P (c # cs) = (if P c then rems_while P cs @ [c # cs] else [c # cs])"

definition lit :: "string \<Rightarrow> string \<Rightarrow> string list" where
  "lit w s = (if take (length w) s = w then [drop (length w) s] else [])"

definition ws_star :: "string \<Rightarrow> string list" where
  "ws_star s = rems_while is_space s"

definition ws_plus :: "string \<Rightarrow> string list" where
  "ws_plus s = butlast (rems_while is_space s)"

definition then_p :: "(string \<Rightarrow> string list) \<Rightarrow> (string \<Rightarrow> string list) \<Rightarrow> string \<Rightarrow> string list" where
  "then_p p q s = concat (map q (p s))"

definition group1 :: "string \<Rightarrow> string \<Rightarrow> string list" where
  "group1 constant_name =
     then_p (lit ''const'') (then_p ws_plus (then_p (lit constant_name)
       (then_p ws_star (then_p (lit ''='') ws_star))))"

definition quoted :: "string \<Rightarrow> string list" where
  "quoted = then_p (lit [CHR 0x27])
     (then_p (rems_while (\<lambda>c. c \<noteq> CHR 0x27)) (lit [CHR 0x27, CHR '';'']))"

definition match_here :: "string \<Rightarrow> string \<Rightarrow> (string \<times> nat) option" where
  "match_here constant_name s =
     (case concat (map (\<lambda>r. map (\<lambda>e. (r, e)) (quoted r)) (group1 constant_name s)) of
        [] \<Rightarrow> None
      | (r, e) # _ \<Rightarrow> Some (take (length s - length r) s, length s - length e))"

fun re_search :: "string \<Rightarrow> string \<Rightarrow> bool" where
  "re_search constant_name [] = (match_here constant_name [] \<noteq> None)"
| "re_search constant_name (c # cs) =
     (match_here constant_name (c # cs) \<noteq> None \<or> re_search constant_name cs)"

fun re_sub :: "string \<Rightarrow> string \<Rightarrow> nat \<Rightarrow> string \<Rightarrow> string" where
  "re_sub constant_name compressed_value skip [] = []"
| "re_sub constant_name compressed_value (Suc skip) (c # cs) =
     re_sub constant_name compressed_value skip cs"
| "re_sub constant_name compressed_value 0 (c # cs) =
     (case match_here constant_name (c # cs) of
        Some (g1, n) \<Rightarrow>
          g1 @ [CHR 0x27] @ compressed_value @ [CHR 0x27, CHR '';''] @
          re_sub constant_name compressed_value (n - 1) cs
      | None \<Rightarrow> c # re_sub constant_name compressed_value 0 cs)"

definition update_blob_constant :: "path \<Rightarrow> string \<Rightarrow> string \<Rightarrow> fs \<Rightarrow> bool \<times> fs" where
  "update_blob_constant blobs_js_path constant_name compressed_value fs =
     (case read_file fs blobs_js_path of
        None \<Rightarrow> (False, fs)
      | Some content \<Rightarrow>
          if \<not> re_search constant_name content then (False, fs)
          else let new_content = re_sub constant_name compressed_value 0 content in
               if new_content = content then (True, fs)
               else (True, fs(blobs_js_path \<mapsto> new_content)))"

section \<open>extract_lists.py, update_blobs.py and the writing of extract_yaml.py\<close>

text \<open>
  \<open>py_set\<close> is \<^verbatim>\<open>set(...)\<close> on what the extraction function returns. An entry that is
  not a string is in no existing line, so a run with such an entry goes on to
  \<^verbatim>\<open>sorted\<close> and to \<^verbatim>\<open>entry + '\n'\<close>, one of which raises \<^verbatim>\<open>TypeError\<close>.
\<close>

fun hashable :: "val \<Rightarrow> bool" where
  "hashable (VList xs) = False"
| "hashable (VDict d) = False"
| "hashable v = True"

fun py_set :: "val \<Rightarrow> error + val list" where
  "py_set (VList xs) = (if list_all hashable xs then Inr xs else Inl TypeError)"
| "py_set (VDict d) = Inr (map (\<lambda>kv. VStr (fst kv)) d)"
| "py_set (VStr s) = Inr (map (\<lambda>c. VStr [c]) s)"
| "py_set v = Inl TypeError"

fun py_getitem :: "val \<Rightarrow> string \<Rightarrow> error + val" where
  "py_getitem (VDict d) key = (case map_of d key of Some v \<Rightarrow> Inr v | None \<Rightarrow> Inl KeyError)"
| "py_getitem v key = Inl TypeError"

fun py_get :: "val \<Rightarrow> string \<Rightarrow> val \<Rightarrow> error + val" where
  "py_get (VDict d) key dflt = Inr (case map_of d key of Some v \<Rightarrow> v | None \<Rightarrow> dflt)"
| "py_get v key dflt = Inl AttributeError"

fun re_split_colon_digit_colon :: "string \<Rightarrow> string list" where
  "re_split_colon_digit_colon (a # b # c # rest) =
     (if a = CHR '':'' \<and> is_digit b \<and> c = CHR '':'' then [] # re_split_colon_digit_colon rest
      else (case re_split_colon_digit_colon (b # c # rest) of
              l # ls \<Rightarrow> (a # l) # ls
            | [] \<Rightarrow> [[a]]))"
| "re_split_colon_digit_colon s = [s]"

definition extract_locations_from_yaml :: "val \<Rightarrow> error + val" where
  "extract_locations_from_yaml data =
     (case py_getitem data ''gbx_discovery_pg'' of
        Inl e \<Rightarrow> Inl e
      | Inr pg \<Rightarrow>
          (case py_getitem pg ''dlblob'' of
             Inl e \<Rightarrow> Inl e
           | Inr dlblob \<Rightarrow>
               (case dlblob of
                  VStr s \<Rightarrow>
                    Inr (VList (map VStr (filter (\<lambda>loc. loc \<noteq> []) (re_split_colon_digit_colon s))))
                | _ \<Rightarrow> Inl TypeError)))"

definition extract_rewards_from_yaml :: "val \<Rightarrow> error + val" where
  "extract_rewards_from_yaml data =
     (case py_get data ''state'' (VDict []) of
        Inl e \<Rightarrow> Inl e
      | Inr state \<Rightarrow> py_get state ''unique_rewards'' (VList []))"

definition existing_lines :: "fs \<Rightarrow> path \<Rightarrow> string set" where
  "existing_lines fs output_text =
     (case read_file fs output_text of
        None \<Rightarrow> {}
      | Some content \<Rightarrow> set (filter (\<lambda>line. line \<noteq> []) (map strip (read_lines content))))"

definition write_entries :: "string list \<Rightarrow> string" where
  "write_entries all_entries = concat (map (\<lambda>entry. entry @ [CHR 0x0A]) all_entries)"

definition extract_and_merge ::
  "lib \<Rightarrow> path \<Rightarrow> path \<Rightarrow> path option \<Rightarrow> (val \<Rightarrow> error + val) \<Rightarrow>
   string option \<Rightarrow> path option \<Rightarrow> fs \<Rightarrow> error + fs" where
  "extract_and_merge L input_yaml output_text compressed_output extract_func
       blob_constant blobs_js_path fs =
     (case read_file fs input_yaml of
        None \<Rightarrow> Inl FileNotFoundError
      | Some text \<Rightarrow>
     (case safe_load L text of
        Inl e \<Rightarrow> Inl e
      | Inr data \<Rightarrow>
     (case extract_func data of
        Inl e \<Rightarrow> Inl e
      | Inr extracted \<Rightarrow>
     (case py_set extracted of
        Inl e \<Rightarrow> Inl e
      | Inr items \<Rightarrow>
          if \<not> list_all is_str items then Inl TypeError
          else
            let new_entries = set (map the_str items);
                existing_entries = existing_lines fs output_text;
                initial_count = card existing_entries;
                all_entries = existing_entries \<union> new_entries;
                added_count = card all_entries - initial_count;
                all_entries = sorted_list_of_set all_entries
            in
              if added_count = 0 then Inr fs
              else
                let fs = fs(output_text \<mapsto> write_entries all_entries);
                    joined = join '','' all_entries;
                    b64 = zlib_b64 L joined;
                    compressed_output =
                      (if truthy compressed_output then the compressed_output
                       else rsplit_dot_head output_text @ ''_compressed.txt'');
                    fs = fs(compressed_output \<mapsto> b64)
                in
                  if truthy blob_constant \<and> truthy blobs_js_path \<and> HAS_UPDATE_BLOBS
                  then Inr (snd (update_blob_constant (the blobs_js_path) (the blob_constant) b64 fs))
                  else Inr fs))))"

text \<open>The exit status of a script whose body is the given run: 1 after an exception.\<close>

definition exit_status :: "error + 'a \<Rightarrow> nat" where
  "exit_status r = (case r of Inl e \<Rightarrow> 1 | Inr x \<Rightarrow> 0)"

text \<open>
  \<open>merge_yaml\<close> called on the values that \<open>write_yaml_and_compressed\<close> hands to it: when the
  new value is no dictionary \<^verbatim>\<open>new.items()\<close> raises; when the existing value is no
  dictionary the loop raises \<^verbatim>\<open>TypeError\<close> at the first key, and
  \<^verbatim>\<open>existing.items()\<close> raises when there is no key.
\<close>

definition merge_yaml_val :: "val \<Rightarrow> val \<Rightarrow> error + val" where
  "merge_yaml_val existing new =
     (case new of
        VDict nd \<Rightarrow>
          (case existing of
             VDict ed \<Rightarrow> Inr (VDict (merge_yaml ed nd))
           | _ \<Rightarrow> Inl (if nd = [] then AttributeError else TypeError))
      | _ \<Rightarrow> Inl AttributeError)"

definition write_yaml_and_compressed ::
  "lib \<Rightarrow> val \<Rightarrow> path \<Rightarrow> bool \<Rightarrow> string option \<Rightarrow> path option \<Rightarrow> fs \<Rightarrow> error + fs" where
  "write_yaml_and_compressed L obj output_yaml compressed blob_constant blobs_js_path fs =
     (case (if output_yaml \<noteq> [] \<and> fs output_yaml \<noteq> None then
              (case safe_load L (the (read_file fs output_yaml)) of
                 Inl e \<Rightarrow> Inl e
               | Inr existing \<Rightarrow>
                   merge_yaml_val (if py_truthy existing then existing else VDict []) obj)
            else Inr obj) of
        Inl e \<Rightarrow> Inl e
      | Inr obj \<Rightarrow>
          if output_yaml = [] then Inl FileNotFoundError
          else
            let fs = fs(output_yaml \<mapsto> safe_dump L obj) in
              if compressed then
                let compressed_txt = with_suffix_empty L output_yaml @ ''_compressed.txt'';
                    yaml_str = safe_dump L obj;
                    b64 = zlib_b64 L yaml_str;
                    fs = fs(compressed_txt \<mapsto> b64)
                in
                  if truthy blob_constant \<and> truthy blobs_js_path \<and> HAS_UPDATE_BLOBS
                  then Inr (snd (update_blob_constant (the blobs_js_path) (the blob_constant) b64 fs))
                  else Inr fs
              else Inr fs)"

text \<open>
  \<^verbatim>\<open>update_blobs.py\<close>: the three sources of the compressed value are mutually exclusive
  and one is required; \<open>blobs_js_path\<close> is the resolved path. The result is the exit status
  and the file system; an exception that is not caught ends the run with status 1.
\<close>

datatype input_source = File path | Yaml path | Text path

definition compress_yaml_file :: "lib \<Rightarrow> string \<Rightarrow> error + string" where
  "compress_yaml_file L text =
     (case safe_load L text of
        Inl e \<Rightarrow> Inl e
      | Inr data \<Rightarrow> Inr (zlib_b64 L (safe_dump L data)))"

definition compress_text_list :: "lib \<Rightarrow> string \<Rightarrow> string" where
  "compress_text_list L text =
     (let content = strip text;
          joined =
            (if CHR 0x0A \<in> set content \<and> CHR '','' \<notin> set content
             then join '',''
                    (map strip (filter (\<lambda>line. strip line \<noteq> [])
                                       (splitp (\<lambda>c. c = CHR 0x0A) content)))
             else content)
      in zlib_b64 L joined)"

definition read_compressed_file :: "string \<Rightarrow> string" where
  "read_compressed_file text = strip text"

definition update_blobs_main ::
  "lib \<Rightarrow> path \<Rightarrow> string \<Rightarrow> input_source \<Rightarrow> fs \<Rightarrow> nat \<times> fs" where
  "update_blobs_main L blobs_js_path constant src fs =
     (case (case src of
              File p \<Rightarrow>
                (case read_file fs p of
                   None \<Rightarrow> None
                 | Some text \<Rightarrow> Some (read_compressed_file text))
            | Yaml p \<Rightarrow>
                (case read_file fs p of
                   None \<Rightarrow> None
                 | Some text \<Rightarrow>
                     (case compress_yaml_file L text of Inl e \<Rightarrow> None | Inr v \<Rightarrow> Some v))
            | Text p \<Rightarrow>
                (case read_file fs p of
                   None \<Rightarrow> None
                 | Some text \<Rightarrow> Some (compress_text_list L text))) of
        None \<Rightarrow> (1, fs)
      | Some compressed_value \<Rightarrow>
          if compressed_value = [] then (1, fs)
          else
            let (success, fs) = update_blob_constant blobs_js_path constant compressed_value fs in
              if \<not> success then (1, fs) else (0, fs))"

text \<open>The parsed arguments of \<^verbatim>\<open>extract_lists.py\<close> and its main block.\<close>

record list_args =
  inputyaml :: path
  outputtext :: path
  compressed :: "path option"
  rewards :: bool
  blobs_js :: "path option"

definition extract_lists_main :: "lib \<Rightarrow> list_args \<Rightarrow> fs \<Rightarrow> error + fs" where
  "extract_lists_main L args fs =
     (if rewards args then
        extract_and_merge L (inputyaml args) (outputtext args) (compressed args)
          extract_rewards_from_yaml
          (if truthy (blobs_js args) then Some ''REWARDS_COMPRESSED'' else None)
          (blobs_js args) fs
      else
        extract_and_merge L (inputyaml args) (outputtext args) (compressed args)
          extract_locations_from_yaml
          (if truthy (blobs_js args) then Some ''LOCATIONS_COMPRESSED'' else None)
          (blobs_js args) fs)"

text \<open>
  A library for the examples: \<open>safe_load\<close> is \<^verbatim>\<open>yaml.safe_load\<close> on the two input
  texts of the examples and fails on every other text; the other three are stand-ins.
\<close>

definition lib0 :: lib where
  "lib0 =
     \<lparr>safe_load = (\<lambda>s.
        if s = ''state: {unique_rewards: [Beta, gamma]}'' then
          Inr (VDict [(''state'', VDict [(''unique_rewards'', VList [VStr ''Beta'', VStr ''gamma''])])])
        else if s = ''state: {unique_rewards: [beta]}'' then
          Inr (VDict [(''state'', VDict [(''unique_rewards'', VList [VStr ''beta''])])])
        else Inl ParseError),
      safe_dump = (\<lambda>v. case py_repr v of Inl e \<Rightarrow> [] | Inr s \<Rightarrow> s),
      zlib_b64 = rev,
      with_suffix_empty = rsplit_dot_head\<rparr>"

section \<open>Sorting by string keys\<close>

lemma collect_map_Inr: "\<forall>x \<in> set xs. f x = Inr (g x) \<Longrightarrow> collect (map f xs) = Inr (map g xs)"
  by (induction xs) simp_all



lemma collect_map_Inl_iff:
  "(\<exists>e. collect (map f xs) = Inl e) = (\<exists>x \<in> set xs. \<exists>e. f x = Inl e)"
  by (induction xs) (auto split: sum.splits)

lemma zip_map_self: "zip (map k xs) xs = map (\<lambda>x. (k x, x)) xs"
  by (induction xs) simp_all

lemma insort_key_pairs_eq:
  "insort_key fst (k x, x) (map (\<lambda>x. (k x, x)) ys) = map (\<lambda>x. (k x, x)) (insort_key k x ys)"
  by (induction ys) simp_all

lemma sort_key_pairs: "sort_key fst (map (\<lambda>x. (k x, x)) xs) = map (\<lambda>x. (k x, x)) (sort_key k xs)"
  by (induction xs) (simp_all add: insort_key_pairs_eq)

lemma py_sorted_total:
  assumes "\<forall>x \<in> set xs. key x = Inr (k x)"
  shows "py_sorted key xs = Inr (sort_key k xs)"
proof -
  have c: "collect (map key xs) = Inr (map k xs)" using assms by (rule collect_map_Inr)
  show ?thesis
    unfolding py_sorted_def c
    by (simp add: zip_map_self sort_key_pairs comp_def)
qed


lemma py_sorted_Inl_iff:
  "(\<exists>e. py_sorted key xs = Inl e) = (\<exists>x \<in> set xs. \<exists>e. key x = Inl e)"
proof -
  have "(\<exists>e. py_sorted key xs = Inl e) = (\<exists>e. collect (map key xs) = Inl e)"
    unfolding py_sorted_def by (auto split: sum.splits)
  then show ?thesis by (simp only: collect_map_Inl_iff)
qed

lemma length_digits_pow: "length (digits (10 ^ k)) = Suc k"
proof (induction k)
  case 0
  show ?case by simp
next
  case (Suc k)
  have "\<not> (10::nat) ^ Suc k < 10" by (simp add: not_less)
  then have "digits (10 ^ Suc k) = digits (10 ^ k) @ [digit_char 0]"
    by (subst digits.simps) simp
  then show ?case using Suc by simp
qed

lemma str_int_long: "str_int (10 ^ int_max_str_digits) = Inl ValueError"
proof -
  have "nat \<bar>(10::int) ^ int_max_str_digits\<bar> = 10 ^ int_max_str_digits"
    by (simp add: nat_power_eq)
  then show ?thesis
    by (simp only: str_int_def Let_def length_digits_pow lessI if_True)
qed

lemma str_key_long: "str_key (VInt (10 ^ int_max_str_digits)) = Inl ValueError"
  by (simp add: str_key_def str_int_long)

lemma py_sorted_long:
  "VInt (10 ^ int_max_str_digits) \<in> set xs \<Longrightarrow> \<exists>e. py_sorted str_key xs = Inl e"
  unfolding py_sorted_Inl_iff using str_key_long by blast

lemma collect_ValueError:
  "\<forall>x \<in> set xs. \<forall>e. f x = Inl e \<longrightarrow> e = ValueError \<Longrightarrow> collect (map f xs) = Inl e \<Longrightarrow>
   e = ValueError"
  by (induction xs) (auto split: sum.splits)

lemma py_repr_ValueError: "py_repr v = Inl e \<Longrightarrow> e = ValueError"
proof (induction v arbitrary: e rule: py_repr.induct)
  case (2 i)
  then show ?case by (simp add: str_int_def Let_def split: if_splits)
next
  case (5 xs)
  from 5(2) have c: "collect (map py_repr xs) = Inl e" by (simp split: sum.splits)
  show ?case by (rule collect_ValueError[OF _ c]) (use 5(1) in blast)
next
  case (6 d)
  let ?f = "\<lambda>kv. case py_repr (snd kv) of Inl e \<Rightarrow> Inl e
                   | Inr r \<Rightarrow> Inr (repr_str (fst kv) @ '': '' @ r)"
  from 6(2) have c: "collect (map ?f d) = Inl e" by (simp split: sum.splits)
  show ?case
  proof (rule collect_ValueError[OF _ c], intro ballI allI impI)
    fix kv e' assume kv: "kv \<in> set d" and f: "?f kv = Inl e'"
    then have "py_repr (snd kv) = Inl e'" by (simp split: sum.splits)
    then show "e' = ValueError" using 6(1)[OF kv] by simp
  qed
qed simp_all

lemma py_str_ValueError: "py_str x = Inl e \<Longrightarrow> e = ValueError"
  by (cases x) (auto dest: py_repr_ValueError simp del: py_repr.simps)

lemma str_key_ValueError: "str_key x = Inl e \<Longrightarrow> e = ValueError"
  unfolding str_key_def by (auto split: sum.splits dest: py_str_ValueError)

lemma py_sorted_ValueError: "py_sorted str_key xs = Inl e \<Longrightarrow> e = ValueError"
proof -
  assume a: "py_sorted str_key xs = Inl e"
  then have c: "collect (map str_key xs) = Inl e"
    unfolding py_sorted_def by (simp split: sum.splits)
  show ?thesis by (rule collect_ValueError[OF _ c]) (use str_key_ValueError in blast)
qed

section \<open>merge_lists on lists of strings\<close>

lemma set_alist_update: "set (AList.update k v m) \<subseteq> insert (k, v) (set m)"
  by (induction m) auto

lemma find_app:
  "find P (xs @ ys) = (case find P xs of None \<Rightarrow> find P ys | Some x \<Rightarrow> Some x)"
  by (induction xs) auto

lemma keyed_update: "keyed m \<Longrightarrow> keyed (AList.update (lkey x) x m)"
  unfolding keyed_def
proof (intro conjI ballI)
  assume h: "distinct (map fst m) \<and> (\<forall>kv\<in>set m. fst kv = lkey (snd kv))"
  show "distinct (map fst (AList.update (lkey x) x m))" using h by (simp add: distinct_update)
  fix kv assume "kv \<in> set (AList.update (lkey x) x m)"
  then have "kv \<in> insert (lkey x, x) (set m)" using set_alist_update by fastforce
  then show "fst kv = lkey (snd kv)" using h by auto
qed

lemma old_loop_keyed:
  "keyed m \<Longrightarrow> keyed (fold (\<lambda>x m. AList.update (lkey x) x m) xs m)"
  by (induction xs arbitrary: m) (simp_all add: keyed_update)

lemma old_loop_map_of:
  "map_of (fold (\<lambda>x m. AList.update (lkey x) x m) xs m) k =
     (case find (\<lambda>y. lkey y = k) (rev xs) of Some y \<Rightarrow> Some y | None \<Rightarrow> map_of m k)"
proof (induction xs arbitrary: m)
  case Nil
  show ?case by simp
next
  case (Cons x xs)
  show ?case
    by (auto simp add: Cons.IH find_app update_conv' split: option.splits)
qed

lemma new_loop_keyed:
  "keyed m \<Longrightarrow>
   keyed (fold (\<lambda>x m. if map_of m (lkey x) = None then AList.update (lkey x) x m else m) xs m)"
  by (induction xs arbitrary: m) (simp_all add: keyed_update)

lemma new_loop_map_of:
  "map_of (fold (\<lambda>x m. if map_of m (lkey x) = None then AList.update (lkey x) x m else m) xs m) k =
     (case map_of m k of Some y \<Rightarrow> Some y | None \<Rightarrow> find (\<lambda>y. lkey y = k) xs)"
proof (induction xs arbitrary: m)
  case Nil
  show ?case by (simp split: option.splits)
next
  case (Cons x xs)
  show ?case
    by (auto simp add: Cons.IH update_conv' split: option.splits)
qed

lemma keyed_lookup: "keyed m \<Longrightarrow> r \<in> snd ` set m \<Longrightarrow> map_of m (lkey r) = Some r"
  unfolding keyed_def by (auto simp: rev_image_eqI)

lemma keyed_keys: "keyed m \<Longrightarrow> map lkey (map snd m) = map fst m"
  unfolding keyed_def by auto

lemma merge_lists_str:
  "list_all is_str (old_list @ new_list) \<Longrightarrow>
   merge_lists old_list new_list = sort_key lkey (map snd (lower_index old_list new_list))"
  unfolding merge_lists_def by simp

lemma keyed_lower_index: "keyed (lower_index old_list new_list)"
  unfolding lower_index_def by (intro new_loop_keyed old_loop_keyed) (simp add: keyed_def)

lemma lower_index_map_of:
  "map_of (lower_index old_list new_list) k =
     (case find (\<lambda>y. lkey y = k) (rev old_list) of
        Some y \<Rightarrow> Some y
      | None \<Rightarrow> find (\<lambda>y. lkey y = k) new_list)"
  unfolding lower_index_def by (simp add: new_loop_map_of old_loop_map_of split: option.splits)

lemma find_None_iff_key: "(find (\<lambda>y. f y = k) xs = None) = (k \<notin> f ` set xs)"
  by (induction xs) auto

lemma lower_index_keys: "fst ` set (lower_index old_list new_list) = lkey ` (set old_list \<union> set new_list)"
proof -
  have "fst ` set (lower_index old_list new_list) = dom (map_of (lower_index old_list new_list))"
    by (simp add: dom_map_of_conv_image_fst)
  also have "\<dots> = lkey ` (set old_list \<union> set new_list)"
  proof -
    have "map_of (lower_index old_list new_list) k = None \<longleftrightarrow>
            k \<notin> lkey ` (set old_list \<union> set new_list)" for k
    proof (cases "find (\<lambda>y. lkey y = k) (rev old_list)")
      case None
      then have "k \<notin> lkey ` set old_list" using find_None_iff_key[of lkey k "rev old_list"] by simp
      then show ?thesis by (simp add: lower_index_map_of None find_None_iff_key image_Un)
    next
      case (Some y)
      then have "k \<in> lkey ` set old_list" using find_None_iff_key[of lkey k "rev old_list"] by simp
      then show ?thesis by (simp add: lower_index_map_of Some image_Un)
    qed
    then have "(map_of (lower_index old_list new_list) k \<noteq> None) =
            (k \<in> lkey ` (set old_list \<union> set new_list))" for k
      by simp
    then show ?thesis unfolding dom_def by (rule Collect_cong[THEN trans]) simp
  qed
  finally show ?thesis .
qed

lemma merge_lists_strings:
  assumes "list_all is_str (old_list @ new_list)"
  shows "sorted (map lkey (merge_lists old_list new_list))"
    and "distinct (map lkey (merge_lists old_list new_list))"
    and "lkey ` set (merge_lists old_list new_list) = lkey ` (set old_list \<union> set new_list)"
    and "\<forall>r \<in> set (merge_lists old_list new_list).
           (case find (\<lambda>y. lkey y = lkey r) (rev old_list) of
              Some y \<Rightarrow> r = y
            | None \<Rightarrow> find (\<lambda>y. lkey y = lkey r) new_list = Some r)"
proof -
  let ?m = "lower_index old_list new_list"
  have eq: "merge_lists old_list new_list = sort_key lkey (map snd ?m)"
    using assms by (rule merge_lists_str)
  have k: "keyed ?m" by (rule keyed_lower_index)
  show "sorted (map lkey (merge_lists old_list new_list))" by (simp add: eq)
  have "distinct (map lkey (sort_key lkey (map snd ?m))) = distinct (map lkey (map snd ?m))"
    by (simp only: distinct_map distinct_sort set_sort)
  then have "distinct (map lkey (sort_key lkey (map snd ?m))) = distinct (map fst ?m)"
    by (simp only: keyed_keys[OF k])
  then show "distinct (map lkey (merge_lists old_list new_list))"
    using k by (simp add: eq keyed_def)
  have "lkey ` set (merge_lists old_list new_list) = set (map lkey (map snd ?m))"
    by (simp add: eq image_image)
  also have "\<dots> = set (map fst ?m)" by (simp only: keyed_keys[OF k])
  also have "\<dots> = fst ` set ?m" by simp
  finally show "lkey ` set (merge_lists old_list new_list) = lkey ` (set old_list \<union> set new_list)"
    by (simp add: lower_index_keys)
  show "\<forall>r \<in> set (merge_lists old_list new_list).
           (case find (\<lambda>y. lkey y = lkey r) (rev old_list) of
              Some y \<Rightarrow> r = y
            | None \<Rightarrow> find (\<lambda>y. lkey y = lkey r) new_list = Some r)"
  proof
    fix r assume "r \<in> set (merge_lists old_list new_list)"
    then have "r \<in> snd ` set ?m" by (simp add: eq)
    then have "map_of ?m (lkey r) = Some r" by (rule keyed_lookup[OF k])
    then show "case find (\<lambda>y. lkey y = lkey r) (rev old_list) of
              Some y \<Rightarrow> r = y
            | None \<Rightarrow> find (\<lambda>y. lkey y = lkey r) new_list = Some r"
      by (auto simp: lower_index_map_of split: option.splits)
  qed
qed

text \<open>
  Claim C4, as amended. For two lists of strings, \<open>merge_lists\<close> returns one value for
  each lowercase key of the two lists, sorted by that key. For a key that occurs in the
  existing list the value kept is the existing list's last entry with that key (the first
  loop overwrites); for any other key it is the incoming list's first entry with that key.
  So the existing list always has priority over the incoming one, and
  \<^verbatim>\<open>merge_lists(["Foo"], ["foo", "Bar"]) = ["Bar", "Foo"]\<close>.
\<close>

theorem merge_lists_strings_casing:
  "merge_lists [VStr ''Foo''] [VStr ''foo'', VStr ''Bar''] = [VStr ''Bar'', VStr ''Foo''] \<and>
   (\<forall>old_list new_list.
      list_all is_str (old_list @ new_list) \<longrightarrow>
        sorted (map lkey (merge_lists old_list new_list)) \<and>
        distinct (map lkey (merge_lists old_list new_list)) \<and>
        lkey ` set (merge_lists old_list new_list) = lkey ` (set old_list \<union> set new_list) \<and>
        (\<forall>r \<in> set (merge_lists old_list new_list).
           (case find (\<lambda>y. lkey y = lkey r) (rev old_list) of
              Some y \<Rightarrow> r = y
            | None \<Rightarrow> find (\<lambda>y. lkey y = lkey r) new_list = Some r)))"
proof (intro conjI allI impI)
  show "merge_lists [VStr ''Foo''] [VStr ''foo'', VStr ''Bar''] = [VStr ''Bar'', VStr ''Foo'']"
    by code_simp
qed (rule merge_lists_strings; assumption)+

theorem merge_lists_strings_casing_witness:
  "list_all is_str ([VStr ''Foo'', VStr ''foo''] @ [VStr ''FOO'', VStr ''bar'']) \<and>
   merge_lists [VStr ''Foo'', VStr ''foo''] [VStr ''FOO'', VStr ''bar''] = [VStr ''bar'', VStr ''foo''] \<and>
   sorted (map lkey (merge_lists [VStr ''Foo'', VStr ''foo''] [VStr ''FOO'', VStr ''bar''])) \<and>
   distinct (map lkey (merge_lists [VStr ''Foo'', VStr ''foo''] [VStr ''FOO'', VStr ''bar'']))"
proof -
  have h: "list_all is_str ([VStr ''Foo'', VStr ''foo''] @ [VStr ''FOO'', VStr ''bar''])"
    by simp
  have e: "merge_lists [VStr ''Foo'', VStr ''foo''] [VStr ''FOO'', VStr ''bar''] = [VStr ''bar'', VStr ''foo'']"
    by code_simp
  from merge_lists_strings_casing[THEN conjunct2, rule_format, OF h] h e
  show ?thesis by blast
qed

text \<open>
  Claim C4 as stated fails: with two casings of one key in the existing list, the entry
  kept is the last one, not the first one seen.
\<close>

theorem merge_lists_first_seen_counterexample:
  "list_all is_str ([VStr ''Foo'', VStr ''foo''] @ []) \<and>
   merge_lists [VStr ''Foo'', VStr ''foo''] [] = [VStr ''foo''] \<and>
   first_seen [VStr ''Foo'', VStr ''foo''] [] (lkey (VStr ''foo'')) = Some (VStr ''Foo'')"
  by code_simp



lemma sort_key_idem: "sort_key k (sort_key k xs) = sort_key k xs"
  by (rule sort_key_id_if_sorted) simp

section \<open>sort_dict and a rendering that fails\<close>

lemma collect_list_all2:
  "(collect (map f xs) = Inr vs) = list_all2 (\<lambda>x v. f x = Inr v) xs vs"
proof (induction xs arbitrary: vs)
  case Nil
  show ?case by auto
next
  case (Cons x xs)
  show ?case
  proof (cases vs)
    case Nil
    then show ?thesis by (auto split: sum.splits)
  next
    case (Cons v vs')
    then show ?thesis using Cons.IH[of vs'] by (auto split: sum.splits)
  qed
qed

lemma py_sorted_str_key_Inr:
  assumes "py_sorted str_key xs = Inr ys"
  shows "ys = sort_key the_key xs" and "\<forall>x \<in> set xs. str_key x = Inr (the_key x)"
proof -
  have "\<not> (\<exists>e. py_sorted str_key xs = Inl e)" using assms by simp
  then have n: "\<forall>x \<in> set xs. \<forall>e. str_key x \<noteq> Inl e" unfolding py_sorted_Inl_iff by blast
  show k: "\<forall>x \<in> set xs. str_key x = Inr (the_key x)"
  proof
    fix x assume "x \<in> set xs"
    then have "\<forall>e. str_key x \<noteq> Inl e" using n by blast
    then show "str_key x = Inr (the_key x)" unfolding the_key_def by (cases "str_key x") simp_all
  qed
  show "ys = sort_key the_key xs" using py_sorted_total[OF k] assms by simp
qed

lemma sort_dict_list_Inr:
  assumes "sort_dict (VList xs) = Inr T'"
  shows "\<exists>lst. list_all2 (\<lambda>x y. sort_dict x = Inr y) xs lst \<and>
               py_sorted str_key lst = Inr (sort_key the_key lst) \<and>
               (\<forall>y \<in> set lst. str_key y = Inr (the_key y)) \<and>
               T' = VList (sort_key the_key lst)"
proof -
  from assms obtain lst where c: "collect (map sort_dict xs) = Inr lst"
    by (auto split: sum.splits)
  have l: "list_all2 (\<lambda>x y. sort_dict x = Inr y) xs lst" using c by (simp only: collect_list_all2)
  show ?thesis
  proof (cases "py_sorted str_key lst")
    case (Inl e)
    then have "e = ValueError" by (rule py_sorted_ValueError)
    then show ?thesis using assms c Inl by simp
  next
    case (Inr s)
    have s: "s = sort_key the_key lst" and k: "\<forall>y \<in> set lst. str_key y = Inr (the_key y)"
      using py_sorted_str_key_Inr[OF Inr] by simp_all
    have "T' = VList s" using assms c Inr by simp
    then show ?thesis using l k Inr s by blast
  qed
qed

lemma sort_dict_list_fixed:
  assumes "\<forall>y \<in> set lst. sort_dict y = Inr y" and "\<forall>y \<in> set lst. str_key y = Inr (k y)"
  shows "sort_dict (VList lst) = Inr (VList (sort_key k lst))"
proof -
  have "collect (map sort_dict lst) = Inr (map (\<lambda>y. y) lst)"
    using assms(1) by (intro collect_map_Inr) simp
  then show ?thesis using py_sorted_total[OF assms(2)] by simp
qed

lemma sort_dict_returned:
  "sort_dict T = Inr T' \<Longrightarrow> sort_dict T' = Inr T' \<and> scalars T' = scalars T"
proof (induction T arbitrary: T' rule: sort_dict.induct)
  case (1 d)
  let ?k = "\<lambda>kv :: string \<times> val. lower (fst kv)"
  let ?f = "\<lambda>kv :: string \<times> val. case sort_dict (snd kv) of Inl e \<Rightarrow> Inl e
                                         | Inr v \<Rightarrow> Inr (fst kv, v)"
  let ?sd = "sort_key ?k d"
  from 1(2) obtain items where c: "collect (map ?f ?sd) = Inr items" and t: "T' = VDict items"
    by (auto split: sum.splits)
  have l: "list_all2 (\<lambda>kv item. ?f kv = Inr item) ?sd items"
    using c by (simp only: collect_list_all2)
  have r: "list_all2 (\<lambda>kv item. fst item = fst kv \<and> sort_dict (snd kv) = Inr (snd item)) ?sd items"
    using l by (rule list_all2_mono) (auto split: sum.splits)
  have ih: "list_all2 (\<lambda>kv item. fst item = fst kv \<and> sort_dict (snd item) = Inr (snd item) \<and>
              scalars (snd item) = scalars (snd kv)) ?sd items"
    using r
  proof (rule list.rel_mono_strong)
    fix kv item
    assume "kv \<in> set ?sd" and "item \<in> set items"
      and "fst item = fst kv \<and> sort_dict (snd kv) = Inr (snd item)"
    then show "fst item = fst kv \<and> sort_dict (snd item) = Inr (snd item) \<and>
               scalars (snd item) = scalars (snd kv)"
      using 1(1)[of kv "snd item"] by simp
  qed
  have keys: "map ?k items = map ?k ?sd"
    using ih by (induction rule: list_all2_induct) simp_all
  have "sorted (map ?k items)" unfolding keys by simp
  then have sk: "sort_key ?k items = items" by (rule sort_key_id_if_sorted)
  have fx: "\<forall>item \<in> set items. ?f item = Inr item"
    using ih by (induction rule: list_all2_induct) (simp_all add: prod_eq_iff)
  have "collect (map ?f items) = Inr (map (\<lambda>y. y) items)"
    using fx by (intro collect_map_Inr) simp
  then have a: "sort_dict (VDict items) = Inr (VDict items)" by (simp add: sk)
  have "(\<Union>kv \<in> set items. scalars (snd kv)) = (\<Union>kv \<in> set ?sd. scalars (snd kv))"
    using ih by (induction rule: list_all2_induct) simp_all
  then have b: "scalars (VDict items) = scalars (VDict d)" by simp
  show ?case using a b t by simp
next
  case (2 xs)
  from sort_dict_list_Inr[OF 2(2)] obtain lst where
    l: "list_all2 (\<lambda>x y. sort_dict x = Inr y) xs lst"
    and k: "\<forall>y \<in> set lst. str_key y = Inr (the_key y)"
    and t: "T' = VList (sort_key the_key lst)" by blast
  have ih: "list_all2 (\<lambda>x y. sort_dict y = Inr y \<and> scalars y = scalars x) xs lst"
    using l
  proof (rule list.rel_mono_strong)
    fix x y assume "x \<in> set xs" and "y \<in> set lst" and "sort_dict x = Inr y"
    then show "sort_dict y = Inr y \<and> scalars y = scalars x" using 2(1) by blast
  qed
  have fx: "\<forall>y \<in> set lst. sort_dict y = Inr y"
    using ih by (induction rule: list_all2_induct) simp_all
  have "sort_dict (VList (sort_key the_key lst)) =
        Inr (VList (sort_key the_key (sort_key the_key lst)))"
    by (rule sort_dict_list_fixed) (use fx k in simp_all)
  then have a: "sort_dict T' = Inr T'" unfolding t by (simp only: sort_key_idem)
  have "(\<Union>y \<in> set lst. scalars y) = (\<Union>x \<in> set xs. scalars x)"
    using ih by (induction rule: list_all2_induct) simp_all
  then have b: "scalars T' = scalars (VList xs)" unfolding t by simp
  show ?case using a b by simp
qed auto

text \<open>
  Claim C6 fails on the code at a list that holds an integer of more than
  \<open>int_max_str_digits\<close> digits: the key \<^verbatim>\<open>str(x).lower()\<close> of the sort raises
  \<^verbatim>\<open>ValueError\<close>, the handler of \<open>sort_dict\<close> catches \<^verbatim>\<open>TypeError\<close> only, and
  \<open>sort_dict\<close> raises where the claim has it return the canonical form. \<open>merge_lists\<close>, whose
  handler catches every exception, returns on the same list.
\<close>

theorem sort_dict_long_integer:
  "sort_dict (VList [VInt (10 ^ int_max_str_digits), VStr ''b'']) = Inl ValueError \<and>
   sort_dict (VDict [(''a'', VList [VInt (10 ^ int_max_str_digits), VStr ''b''])]) = Inl ValueError \<and>
   merge_lists [VInt (10 ^ int_max_str_digits), VStr ''b''] [] =
     [VInt (10 ^ int_max_str_digits), VStr ''b'']"
proof -
  let ?n = "VInt (10 ^ int_max_str_digits)"
  have c: "collect (map sort_dict [?n, VStr ''b'']) = Inr [?n, VStr ''b'']" by simp
  have s: "py_sorted str_key [?n, VStr ''b''] = Inl ValueError"
    unfolding py_sorted_def by (simp add: str_key_long)
  have a: "sort_dict (VList [?n, VStr ''b'']) = Inl ValueError"
    by (simp only: sort_dict.simps c s sum.case) simp
  have b: "sort_dict (VDict [(''a'', VList [?n, VStr ''b''])]) = Inl ValueError"
    by (simp only: sort_dict.simps(1) sort_key_simps insort_key.simps list.map snd_conv a
        sum.case collect.simps)
  have u: "append_unique [?n, VStr ''b''] [] = [?n, VStr ''b'']"
    by (simp add: append_unique_def)
  have m: "merge_lists [?n, VStr ''b''] [] = [?n, VStr ''b'']"
    unfolding merge_lists_def by (simp add: u s)
  show ?thesis using a b m by simp
qed

section \<open>merge_lists on other lists\<close>

lemma merge_lists_other:
  "\<not> list_all is_str (old_list @ new_list) \<Longrightarrow>
   merge_lists old_list new_list =
     (case py_sorted str_key (append_unique old_list new_list) of
        Inr s \<Rightarrow> s
      | Inl e \<Rightarrow> append_unique old_list new_list)"
  unfolding merge_lists_def by (simp only: if_not_P if_False Let_def)

text \<open>
  Claim C9. There is a pair of lists, not all strings, for which the sort by the
  lowercased rendering fails and \<open>merge_lists\<close> returns the list in append order: with an
  integer of more than \<open>int_max_str_digits\<close> digits in the existing list, the rendering
  raises \<^verbatim>\<open>ValueError\<close>, the handler swallows it, and the result is the existing
  elements in their order followed by the incoming elements that are no duplicates, in
  their order; \<open>a\<close> stays behind \<open>b\<close>, which a sort would have put after it.
\<close>

theorem merge_lists_sort_failure:
  "\<not> list_all is_str ([VInt (10 ^ int_max_str_digits), VStr ''b''] @ [VStr ''b'', VStr ''a'']) \<and>
   append_unique [VInt (10 ^ int_max_str_digits), VStr ''b''] [VStr ''b'', VStr ''a''] =
     [VInt (10 ^ int_max_str_digits), VStr ''b'', VStr ''a''] \<and>
   py_sorted str_key
     (append_unique [VInt (10 ^ int_max_str_digits), VStr ''b''] [VStr ''b'', VStr ''a'']) =
     Inl ValueError \<and>
   merge_lists [VInt (10 ^ int_max_str_digits), VStr ''b''] [VStr ''b'', VStr ''a''] =
     [VInt (10 ^ int_max_str_digits), VStr ''b'', VStr ''a''] \<and>
   py_sorted str_key [VStr ''b'', VStr ''a''] = Inr [VStr ''a'', VStr ''b'']"
proof -
  let ?n = "VInt (10 ^ int_max_str_digits)"
  have h: "\<not> list_all is_str ([?n, VStr ''b''] @ [VStr ''b'', VStr ''a''])" by simp
  have u: "append_unique [?n, VStr ''b''] [VStr ''b'', VStr ''a''] = [?n, VStr ''b'', VStr ''a'']"
    by (simp add: append_unique_def)
  have s: "py_sorted str_key [?n, VStr ''b'', VStr ''a''] = Inl ValueError"
    unfolding py_sorted_def by (simp add: str_key_long)
  have m: "merge_lists [?n, VStr ''b''] [VStr ''b'', VStr ''a''] = [?n, VStr ''b'', VStr ''a'']"
    by (simp only: merge_lists_other[OF h] u s sum.case)
  have t: "py_sorted str_key [VStr ''b'', VStr ''a''] = Inr [VStr ''a'', VStr ''b'']"
    by code_simp
  show ?thesis by (simp only: h u s m t simp_thms)
qed

section \<open>The loop of merge_yaml\<close>

lemma set_at_same: "fst kv = key \<Longrightarrow> set_at key v kv = (key, v)"
  by (simp add: set_at_def)

lemma set_at_other: "fst kv \<noteq> key \<Longrightarrow> set_at key v kv = kv"
  by (simp add: set_at_def)

lemma map_set_at_absent: "key \<notin> fst ` set ps \<Longrightarrow> map (set_at key v) ps = ps"
  by (intro map_idI set_at_other) force

lemma update_present:
  "distinct (map fst E) \<Longrightarrow> map_of E key = Some old \<Longrightarrow>
   AList.update key v E = map (set_at key v) E"
proof (induction E)
  case Nil
  then show ?case by simp
next
  case (Cons p ps)
  show ?case
  proof (cases "fst p = key")
    case True
    then have "key \<notin> fst ` set ps" using Cons.prems(1) by auto
    then show ?thesis using True by (simp add: map_set_at_absent set_at_same)
  next
    case False
    then show ?thesis using Cons by (simp add: set_at_other)
  qed
qed

lemma distinct_lookup:
  "distinct (map fst E) \<Longrightarrow> kv \<in> set E \<Longrightarrow> map_of E (fst kv) = Some (snd kv)"
  by (cases kv) simp

lemma same_present:
  assumes "distinct (map fst E)" "map_of E key = Some old"
  shows "map (set_at key old) E = E"
proof (rule map_idI)
  fix kv assume kv: "kv \<in> set E"
  show "set_at key old kv = kv"
  proof (cases "fst kv = key")
    case True
    then have "snd kv = old" using distinct_lookup[OF assms(1) kv] assms(2) by simp
    then show ?thesis using True by (cases kv) (simp add: set_at_def)
  next
    case False
    then show ?thesis by (simp add: set_at_other)
  qed
qed

lemma update_absent: "map_of E key = None \<Longrightarrow> AList.update key v E = E @ [(key, v)]"
  by (induction E) (auto split: if_splits)

lemma merge_items_Cons_present:
  assumes "distinct (map fst E)" "map_of E key = Some old"
  shows "merge_items E ((key, nv) # rest) =
         merge_items (map (set_at key (merge_value old nv)) E) rest"
  using assms(2)
  by (cases old; cases nv)
     (simp_all add: update_present[OF assms(1)] same_present[OF assms(1)])

lemma merge_items_Cons_absent:
  assumes "map_of E key = None"
  shows "merge_items E ((key, nv) # rest) = merge_items (E @ [(key, nv)]) rest"
  using assms by (simp add: update_absent)

lemma fst_set_at [simp]: "fst (set_at key v kv) = fst kv"
  by (simp add: set_at_def)

lemma fst_merged_entry [simp]: "fst (merged_entry items kv) = fst kv"
  by (simp add: merged_entry_def)

lemma merge_items_eq:
  "distinct (map fst E) \<Longrightarrow> distinct (map fst items) \<Longrightarrow>
   merge_items E items =
     map (merged_entry items) E @ filter (\<lambda>kv. fst kv \<notin> fst ` set E) items"
proof (induction items arbitrary: E)
  case Nil
  show ?case by (simp add: merged_entry_def[abs_def])
next
  case (Cons p rest)
  obtain key nv where p: "p = (key, nv)" by (cases p)
  have kr: "key \<notin> fst ` set rest" and dr: "distinct (map fst rest)"
    using Cons.prems(2) p by auto
  have mr: "map_of rest key = None" using kr by (simp add: map_of_eq_None_iff)
  show ?case
  proof (cases "map_of E key")
    case None
    then have kE: "key \<notin> fst ` set E" by (simp add: map_of_eq_None_iff)
    let ?E = "E @ [(key, nv)]"
    have d: "distinct (map fst ?E)" using Cons.prems(1) kE by simp
    have "merge_items E (p # rest) = merge_items ?E rest"
      unfolding p by (rule merge_items_Cons_absent[OF None])
    also have "\<dots> = map (merged_entry rest) ?E @ filter (\<lambda>kv. fst kv \<notin> fst ` set ?E) rest"
      by (rule Cons.IH[OF d dr])
    also have "map (merged_entry rest) ?E = map (merged_entry (p # rest)) E @ [(key, nv)]"
      using kE mr by (auto simp: merged_entry_def p)
    also have "filter (\<lambda>kv. fst kv \<notin> fst ` set ?E) rest = filter (\<lambda>kv. fst kv \<notin> fst ` set E) rest"
      using kr by (intro filter_cong) auto
    finally show ?thesis using kE by (simp add: p)
  next
    case (Some old)
    then have "(key, old) \<in> set E" by (rule map_of_SomeD)
    then have kE: "key \<in> fst ` set E" by force
    let ?E = "map (set_at key (merge_value old nv)) E"
    have d: "distinct (map fst ?E)" using Cons.prems(1) by (simp add: comp_def)
    have fE: "fst ` set ?E = fst ` set E" by (simp add: image_image)
    have "merge_items E (p # rest) = merge_items ?E rest"
      unfolding p by (rule merge_items_Cons_present[OF Cons.prems(1) Some])
    also have "\<dots> = map (merged_entry rest) ?E @ filter (\<lambda>kv. fst kv \<notin> fst ` set E) rest"
      using Cons.IH[OF d dr] by (simp add: image_image)
    also have "map (merged_entry rest) ?E = map (merged_entry (p # rest)) E"
    proof -
      have "merged_entry rest (set_at key (merge_value old nv) kv) = merged_entry (p # rest) kv"
        if kv: "kv \<in> set E" for kv
      proof (cases "fst kv = key")
        case True
        then have "snd kv = old" using distinct_lookup[OF Cons.prems(1) kv] Some by simp
        then show ?thesis using True mr by (simp add: set_at_same merged_entry_def p)
      next
        case False
        then show ?thesis by (simp add: set_at_other merged_entry_def p)
      qed
      then show ?thesis by simp
    qed
    finally show ?thesis using kE by (simp add: p)
  qed
qed

lemma distinct_merge_items:
  "distinct (map fst E) \<Longrightarrow> distinct (map fst items) \<Longrightarrow>
   distinct (map fst (merge_items E items))"
  by (force simp: merge_items_eq comp_def distinct_map_filter)

lemma distinct_keys_sort_key:
  "distinct (map fst (sort_key k xs)) = distinct (map fst xs)"
  by (simp only: distinct_map distinct_sort set_sort)

lemma map_of_sort_key:
  assumes "distinct (map fst xs)"
  shows "map_of (sort_key k xs) = map_of xs"
proof -
  have "distinct (map fst (sort_key k xs))" using assms by (simp only: distinct_keys_sort_key)
  moreover have "set (sort_key k xs) = set xs" by simp
  ultimately show ?thesis using assms map_of_inject_set by blast
qed

lemma map_of_merge_yaml:
  assumes "distinct (map fst existing)" "distinct (map fst new)"
    "map_of existing key = Some old_val" "map_of new key = Some new_val"
  shows "map_of (merge_yaml existing new) key = Some (merge_value old_val new_val)"
proof -
  have "(key, old_val) \<in> set existing" using assms(3) by (rule map_of_SomeD)
  then have "merged_entry new (key, old_val) \<in> set (merge_items existing new)"
    by (simp add: merge_items_eq[OF assms(1,2)])
  then have "(key, merge_value old_val new_val) \<in> set (merge_items existing new)"
    using assms(4) by (simp add: merged_entry_def)
  then have "map_of (merge_items existing new) key = Some (merge_value old_val new_val)"
    using distinct_merge_items[OF assms(1,2)] by simp
  then show ?thesis
    by (simp add: map_of_sort_key[OF distinct_merge_items[OF assms(1,2)]])
qed

lemma merge_value_scalar: "\<not> is_dict old_val \<Longrightarrow> \<not> is_list old_val \<Longrightarrow> merge_value old_val new_val = new_val"
  by (cases old_val) simp_all

lemma merge_value_dict_keep: "is_dict old_val \<Longrightarrow> \<not> is_dict new_val \<Longrightarrow> merge_value old_val new_val = old_val"
  by (cases old_val; cases new_val) simp_all

lemma merge_value_list_keep: "is_list old_val \<Longrightarrow> \<not> is_list new_val \<Longrightarrow> merge_value old_val new_val = old_val"
  by (cases old_val; cases new_val) simp_all

text \<open>
  Claim C3. For a key present in both dictionaries: an existing scalar is overwritten by
  the incoming value, whatever that is; an existing dictionary facing an incoming value
  that is not a dictionary, and an existing list facing an incoming value that is not a
  list, are kept unchanged. \<open>merge_yaml\<close> is total: none of these cases raises.
\<close>

theorem merge_yaml_overwrite_or_keep:
  assumes "distinct (map fst existing)" and "distinct (map fst new)"
    and "map_of existing key = Some old_val" and "map_of new key = Some new_val"
  shows "(\<not> is_dict old_val \<and> \<not> is_list old_val \<longrightarrow>
            map_of (merge_yaml existing new) key = Some new_val) \<and>
         (is_dict old_val \<and> \<not> is_dict new_val \<longrightarrow>
            map_of (merge_yaml existing new) key = Some old_val) \<and>
         (is_list old_val \<and> \<not> is_list new_val \<longrightarrow>
            map_of (merge_yaml existing new) key = Some old_val)"
  using map_of_merge_yaml[OF assms]
  by (auto simp: merge_value_scalar merge_value_dict_keep merge_value_list_keep)

theorem merge_yaml_overwrite_or_keep_witness:
  "map_of (merge_yaml [(''x'', VInt 1), (''m'', VDict [(''n'', VInt 1)]), (''l'', VList [VStr ''a''])]
                      [(''x'', VList [VInt 2]), (''m'', VStr ''scalar''), (''l'', VDict [])]) ''x''
     = Some (VList [VInt 2]) \<and>
   map_of (merge_yaml [(''x'', VInt 1), (''m'', VDict [(''n'', VInt 1)]), (''l'', VList [VStr ''a''])]
                      [(''x'', VList [VInt 2]), (''m'', VStr ''scalar''), (''l'', VDict [])]) ''m''
     = Some (VDict [(''n'', VInt 1)]) \<and>
   map_of (merge_yaml [(''x'', VInt 1), (''m'', VDict [(''n'', VInt 1)]), (''l'', VList [VStr ''a''])]
                      [(''x'', VList [VInt 2]), (''m'', VStr ''scalar''), (''l'', VDict [])]) ''l''
     = Some (VList [VStr ''a''])"
proof -
  let ?e = "[(''x'', VInt 1), (''m'', VDict [(''n'', VInt 1)]), (''l'', VList [VStr ''a''])]"
  let ?n = "[(''x'', VList [VInt 2]), (''m'', VStr ''scalar''), (''l'', VDict [])]"
  have de: "distinct (map fst ?e)" and dn: "distinct (map fst ?n)" by simp_all
  have x: "map_of (merge_yaml ?e ?n) ''x'' = Some (VList [VInt 2])"
    using merge_yaml_overwrite_or_keep[OF de dn, of "''x''" "VInt 1" "VList [VInt 2]"] by simp
  have m: "map_of (merge_yaml ?e ?n) ''m'' = Some (VDict [(''n'', VInt 1)])"
    using merge_yaml_overwrite_or_keep[OF de dn, of "''m''" "VDict [(''n'', VInt 1)]" "VStr ''scalar''"]
    by simp
  have l: "map_of (merge_yaml ?e ?n) ''l'' = Some (VList [VStr ''a''])"
    using merge_yaml_overwrite_or_keep[OF de dn, of "''l''" "VList [VStr ''a'']" "VDict []"] by simp
  show ?thesis using x m l by simp
qed
















section \<open>Merging a tree with itself\<close>







lemma insort_key_cong_keys:
  "f x = g x \<Longrightarrow> \<forall>y \<in> set ys. f y = g y \<Longrightarrow> insort_key f x ys = insort_key g x ys"
  by (induction ys) simp_all

lemma sort_key_cong_keys: "\<forall>x \<in> set xs. f x = g x \<Longrightarrow> sort_key f xs = sort_key g xs"
proof (induction xs)
  case Nil
  show ?case by simp
next
  case (Cons x xs)
  then have "sort_key f xs = sort_key g xs" by simp
  moreover have "insort_key f x (sort_key g xs) = insort_key g x (sort_key g xs)"
    using Cons.prems by (intro insort_key_cong_keys) simp_all
  ultimately show ?case by simp
qed









section \<open>The line-list path: merged lines and the early return\<close>

lemma update_blob_constant_other:
  "q \<noteq> p \<Longrightarrow> snd (update_blob_constant p c v fs) q = fs q"
  unfolding update_blob_constant_def by (simp add: Let_def split: option.splits)

lemma existing_alpha_beta:
  "set (filter (\<lambda>line. line \<noteq> []) (map strip (read_lines (''alpha'' @ [CHR 0x0A] @ ''beta''))))
     = {''alpha'', ''beta''}"
  by code_simp

lemma union_alpha_beta:
  "{''alpha'', ''beta''} \<union> set (map the_str [VStr ''Beta'', VStr ''gamma''])
     = {''Beta'', ''alpha'', ''beta'', ''gamma''}"
  by code_simp

lemma card_alpha_beta: "card {''alpha'', ''beta''} = 2"
  by code_simp

lemma card_union_alpha_beta: "card {''Beta'', ''alpha'', ''beta'', ''gamma''} = 4"
  by code_simp

lemma sorted_union_alpha_beta:
  "sorted_list_of_set {''Beta'', ''alpha'', ''beta'', ''gamma''} = [''Beta'', ''alpha'', ''beta'', ''gamma'']"
  by code_simp

lemma write_four:
  "write_entries [''Beta'', ''alpha'', ''beta'', ''gamma''] =
     ''Beta'' @ [CHR 0x0A] @ ''alpha'' @ [CHR 0x0A] @ ''beta'' @ [CHR 0x0A] @ ''gamma'' @ [CHR 0x0A]"
  by (simp add: write_entries_def)

text \<open>
  Claim C2 (amended): in the line-list path, merging an existing file whose lines are
  \<open>alpha\<close> and \<open>beta\<close> with the newly extracted entries \<open>Beta\<close> and \<open>gamma\<close> writes a file of
  exactly the four lines \<open>Beta\<close>, \<open>alpha\<close>, \<open>beta\<close>, \<open>gamma\<close> in that order: the union of the two
  sets is exact, so \<open>beta\<close> and \<open>Beta\<close> are different entries, and the entries are sorted
  by code point, capitals first.
\<close>

theorem extract_and_merge_alpha_beta:
  assumes "read_file fs input_yaml = Some text"
    and "safe_load L text = Inr data"
    and "extract_func data = Inr (VList [VStr ''Beta'', VStr ''gamma''])"
    and "read_file fs output_text = Some (''alpha'' @ [CHR 0x0A] @ ''beta'')"
    and "(if truthy compressed_output then the compressed_output
          else rsplit_dot_head output_text @ ''_compressed.txt'') \<noteq> output_text"
    and "blobs_js_path \<noteq> Some output_text"
  shows "\<exists>fs'. extract_and_merge L input_yaml output_text compressed_output extract_func
                 blob_constant blobs_js_path fs = Inr fs' \<and>
               fs' output_text =
                 Some (''Beta'' @ [CHR 0x0A] @ ''alpha'' @ [CHR 0x0A] @ ''beta'' @ [CHR 0x0A] @
                       ''gamma'' @ [CHR 0x0A])"
proof -
  have ex: "existing_lines fs output_text = {''alpha'', ''beta''}"
    unfolding existing_lines_def assms(4) by (simp only: option.case existing_alpha_beta)
  have bl: "snd (update_blob_constant (the blobs_js_path) c v g) output_text = g output_text"
    if "truthy blobs_js_path" for c v g
  proof -
    from that obtain p where p: "blobs_js_path = Some p" by (cases blobs_js_path) simp_all
    then have "output_text \<noteq> p" using assms(6) by simp
    then show ?thesis using p by (simp add: update_blob_constant_other)
  qed
  show ?thesis
    unfolding extract_and_merge_def
    using assms(5)
    by (simp add: assms(1,2,3) ex union_alpha_beta card_alpha_beta card_union_alpha_beta
        sorted_union_alpha_beta write_four Let_def bl del: truthy.simps)
qed

theorem extract_and_merge_alpha_beta_witness:
  "read_file [''in.yaml'' \<mapsto> ''state: {unique_rewards: [Beta, gamma]}'',
              ''out.txt'' \<mapsto> ''alpha'' @ [CHR 0x0A] @ ''beta''] ''in.yaml''
     = Some ''state: {unique_rewards: [Beta, gamma]}'' \<and>
   safe_load lib0 ''state: {unique_rewards: [Beta, gamma]}'' =
     Inr (VDict [(''state'', VDict [(''unique_rewards'', VList [VStr ''Beta'', VStr ''gamma''])])]) \<and>
   extract_rewards_from_yaml
     (VDict [(''state'', VDict [(''unique_rewards'', VList [VStr ''Beta'', VStr ''gamma''])])]) =
     Inr (VList [VStr ''Beta'', VStr ''gamma'']) \<and>
   (\<exists>fs'. extract_and_merge lib0 ''in.yaml'' ''out.txt'' None extract_rewards_from_yaml
             (Some ''REWARDS_COMPRESSED'') (Some ''blobs.js'')
             [''in.yaml'' \<mapsto> ''state: {unique_rewards: [Beta, gamma]}'', ''out.txt'' \<mapsto> ''alpha'' @ [CHR 0x0A] @ ''beta''] = Inr fs' \<and>
          fs' ''out.txt'' =
            Some (''Beta'' @ [CHR 0x0A] @ ''alpha'' @ [CHR 0x0A] @ ''beta'' @ [CHR 0x0A] @
                  ''gamma'' @ [CHR 0x0A]))"
proof -
  let ?fs = "[''in.yaml'' \<mapsto> ''state: {unique_rewards: [Beta, gamma]}'', ''out.txt'' \<mapsto> ''alpha'' @ [CHR 0x0A] @ ''beta'']"
  let ?data = "VDict [(''state'', VDict [(''unique_rewards'', VList [VStr ''Beta'', VStr ''gamma''])])]"
  have a: "read_file ?fs ''in.yaml'' = Some ''state: {unique_rewards: [Beta, gamma]}''"
    by (simp add: read_file_def)
  have b: "safe_load lib0 ''state: {unique_rewards: [Beta, gamma]}'' = Inr ?data" by code_simp
  have c: "extract_rewards_from_yaml ?data = Inr (VList [VStr ''Beta'', VStr ''gamma''])"
    by code_simp
  have d: "read_file ?fs ''out.txt'' = Some (''alpha'' @ [CHR 0x0A] @ ''beta'')"
    by (simp add: read_file_def)
  have e: "(if truthy None then the None else rsplit_dot_head ''out.txt'' @ ''_compressed.txt'')
             \<noteq> ''out.txt''" by code_simp
  have f: "Some ''blobs.js'' \<noteq> Some ''out.txt''" by simp
  from extract_and_merge_alpha_beta[where fs = "?fs" and input_yaml = "''in.yaml''"
      and output_text = "''out.txt''" and L = lib0 and extract_func = extract_rewards_from_yaml
      and blob_constant = "Some ''REWARDS_COMPRESSED''", OF a b c d e f] a b c
  show ?thesis by blast
qed

text \<open>
  Claim C2 as stated fails: on the scenario of the claim the text file holds four lines,
  the first of them \<open>Beta\<close>, not the three lines \<open>alpha\<close>, \<open>beta\<close>, \<open>gamma\<close>.
\<close>

theorem extract_and_merge_three_lines_counterexample:
  "(case extract_and_merge lib0 ''in.yaml'' ''out.txt'' None extract_rewards_from_yaml None None
           [''in.yaml'' \<mapsto> ''state: {unique_rewards: [Beta, gamma]}'', ''out.txt'' \<mapsto> ''alpha'' @ [CHR 0x0A] @ ''beta''] of
      Inl e \<Rightarrow> None
    | Inr fs' \<Rightarrow> map_option read_lines (fs' ''out.txt'')) =
     Some [''Beta'', ''alpha'', ''beta'', ''gamma'', []] \<and>
   (case extract_and_merge lib0 ''in.yaml'' ''out.txt'' None extract_rewards_from_yaml None None
           [''in.yaml'' \<mapsto> ''state: {unique_rewards: [Beta, gamma]}'', ''out.txt'' \<mapsto> ''alpha'' @ [CHR 0x0A] @ ''beta''] of
      Inl e \<Rightarrow> None
    | Inr fs' \<Rightarrow> fs' ''out.txt'') \<noteq>
     Some (''alpha'' @ [CHR 0x0A] @ ''beta'' @ [CHR 0x0A] @ ''gamma'' @ [CHR 0x0A])"
  by code_simp

text \<open>
  Claim C10: in the line-list path, when the union of the lines of the existing file and
  of the newly extracted entries is the existing set, \<open>extract_and_merge\<close> returns with
  the file system as it was: the text file is not rewritten, no compressed file is
  written, whatever path was requested for it, and the constant is not patched.
\<close>

theorem extract_and_merge_nothing_new:
  assumes "read_file fs input_yaml = Some text"
    and "safe_load L text = Inr data"
    and "extract_func data = Inr extracted"
    and "py_set extracted = Inr items"
    and "list_all is_str items"
    and "existing_lines fs output_text \<union> set (map the_str items) = existing_lines fs output_text"
  shows "extract_and_merge L input_yaml output_text compressed_output extract_func
           blob_constant blobs_js_path fs = Inr fs"
proof -
  have z: "card (existing_lines fs output_text \<union> set (map the_str items)) -
           card (existing_lines fs output_text) = 0"
    by (simp only: assms(6) diff_self_eq_0)
  show ?thesis
    unfolding extract_and_merge_def
    by (simp only: assms(1,2,3,4,5) option.case sum.case Let_def z simp_thms if_True if_False)
qed

theorem extract_and_merge_nothing_new_witness:
  "read_file [''in.yaml'' \<mapsto> ''state: {unique_rewards: [beta]}'',
              ''out.txt'' \<mapsto> ''alpha'' @ [CHR 0x0A] @ ''beta'' @ [CHR 0x0A]] ''in.yaml''
     = Some ''state: {unique_rewards: [beta]}'' \<and>
   safe_load lib0 ''state: {unique_rewards: [beta]}'' = Inr (VDict [(''state'', VDict [(''unique_rewards'', VList [VStr ''beta''])])]) \<and>
   extract_rewards_from_yaml (VDict [(''state'', VDict [(''unique_rewards'', VList [VStr ''beta''])])])
     = Inr (VList [VStr ''beta'']) \<and>
   py_set (VList [VStr ''beta'']) = Inr [VStr ''beta''] \<and>
   list_all is_str [VStr ''beta''] \<and>
   existing_lines [''in.yaml'' \<mapsto> ''state: {unique_rewards: [beta]}'', ''out.txt'' \<mapsto> ''alpha'' @ [CHR 0x0A] @ ''beta'' @ [CHR 0x0A]]
       ''out.txt'' \<union> set (map the_str [VStr ''beta'']) =
     existing_lines [''in.yaml'' \<mapsto> ''state: {unique_rewards: [beta]}'', ''out.txt'' \<mapsto> ''alpha'' @ [CHR 0x0A] @ ''beta'' @ [CHR 0x0A]]
       ''out.txt'' \<and>
   extract_and_merge lib0 ''in.yaml'' ''out.txt'' (Some ''c.txt'') extract_rewards_from_yaml
       (Some ''REWARDS_COMPRESSED'') (Some ''blobs.js'')
       [''in.yaml'' \<mapsto> ''state: {unique_rewards: [beta]}'', ''out.txt'' \<mapsto> ''alpha'' @ [CHR 0x0A] @ ''beta'' @ [CHR 0x0A]] =
     Inr [''in.yaml'' \<mapsto> ''state: {unique_rewards: [beta]}'', ''out.txt'' \<mapsto> ''alpha'' @ [CHR 0x0A] @ ''beta'' @ [CHR 0x0A]]"
proof -
  let ?fs = "[''in.yaml'' \<mapsto> ''state: {unique_rewards: [beta]}'', ''out.txt'' \<mapsto> ''alpha'' @ [CHR 0x0A] @ ''beta'' @ [CHR 0x0A]]"
  let ?data = "VDict [(''state'', VDict [(''unique_rewards'', VList [VStr ''beta''])])]"
  have a: "read_file ?fs ''in.yaml'' = Some ''state: {unique_rewards: [beta]}''"
    by (simp add: read_file_def)
  have b: "safe_load lib0 ''state: {unique_rewards: [beta]}'' = Inr ?data" by code_simp
  have c: "extract_rewards_from_yaml ?data = Inr (VList [VStr ''beta''])" by code_simp
  have d: "py_set (VList [VStr ''beta'']) = Inr [VStr ''beta'']" by simp
  have e: "list_all is_str [VStr ''beta'']" by simp
  have f: "existing_lines ?fs ''out.txt'' \<union> set (map the_str [VStr ''beta'']) =
           existing_lines ?fs ''out.txt''" by code_simp
  from extract_and_merge_nothing_new[where fs = "?fs" and input_yaml = "''in.yaml''"
      and output_text = "''out.txt''" and L = lib0 and extract_func = extract_rewards_from_yaml
      and blob_constant = "Some ''REWARDS_COMPRESSED''" and blobs_js_path = "Some ''blobs.js''"
      and compressed_output = "Some ''c.txt''", OF a b c d e f] a b c d e f
  show ?thesis by blast
qed

section \<open>A constant that is not found\<close>

lemma update_blob_constant_not_found:
  "read_file fs p = Some content \<Longrightarrow> \<not> re_search c content \<Longrightarrow> update_blob_constant p c v fs = (False, fs)"
  unfolding update_blob_constant_def by simp

lemma update_blobs_main_not_found:
  assumes "read_file fs p = Some content" and "\<not> re_search c content"
  shows "update_blobs_main L p c src fs = (1, fs)"
  unfolding update_blobs_main_def
  by (simp add: update_blob_constant_not_found[where fs = fs and p = p, OF assms]
      split: option.splits)

lemma publish_ignored:
  assumes "read_file fs p = Some content" and "\<not> re_search c content" and "p \<noteq> a" and "p \<noteq> b"
  shows "snd (update_blob_constant p c v (fs(a \<mapsto> x, b \<mapsto> y))) = fs(a \<mapsto> x, b \<mapsto> y)"
proof -
  have "read_file (fs(a \<mapsto> x, b \<mapsto> y)) p = Some content"
    using assms by (simp add: read_file_def)
  then show ?thesis
    using update_blob_constant_not_found[where fs = "fs(a \<mapsto> x, b \<mapsto> y)" and p = p
        and content = content and c = c and v = v] assms(2)
    by simp
qed

lemma publish_step:
  assumes "read_file fs p = Some content" and "\<not> re_search c content" and "p \<noteq> a" and "p \<noteq> b"
  shows "(if truthy (Some c) \<and> truthy (Some p) \<and> HAS_UPDATE_BLOBS
          then Inr (snd (update_blob_constant (the (Some p)) (the (Some c)) v
                      (fs(a \<mapsto> x, b \<mapsto> y))))
          else Inr (fs(a \<mapsto> x, b \<mapsto> y))) =
         (if truthy None \<and> truthy None \<and> HAS_UPDATE_BLOBS
          then Inr (snd (update_blob_constant (the None) (the None) v (fs(a \<mapsto> x, b \<mapsto> y))))
          else (Inr (fs(a \<mapsto> x, b \<mapsto> y)) :: error + fs))"
  using publish_ignored[where fs = fs and p = p and v = v and x = x and y = y, OF assms]
  by simp

lemma extract_and_merge_not_found:
  assumes "read_file fs p = Some content" and "\<not> re_search c content" and "p \<noteq> output_text"
    and "p \<noteq> (if truthy compressed_output then the compressed_output
               else rsplit_dot_head output_text @ ''_compressed.txt'')"
  shows "extract_and_merge L input_yaml output_text compressed_output extract_func
           (Some c) (Some p) fs =
         extract_and_merge L input_yaml output_text compressed_output extract_func None None fs"
  unfolding extract_and_merge_def Let_def
  by (simp only: publish_step[where fs = fs and p = p, OF assms])

lemma write_yaml_and_compressed_not_found:
  assumes "read_file fs p = Some content" and "\<not> re_search c content" and "p \<noteq> output_yaml"
    and "p \<noteq> with_suffix_empty L output_yaml @ ''_compressed.txt''"
  shows "write_yaml_and_compressed L obj output_yaml want_compressed (Some c) (Some p) fs =
         write_yaml_and_compressed L obj output_yaml want_compressed None None fs"
  unfolding write_yaml_and_compressed_def Let_def
  by (simp only: publish_step[where fs = fs and p = p, OF assms])

lemma extract_lists_main_not_found:
  assumes "read_file fs p = Some content"
    and "\<not> re_search (if rewards args then ''REWARDS_COMPRESSED'' else ''LOCATIONS_COMPRESSED'') content"
    and "blobs_js args = Some p" and "p \<noteq> []" and "p \<noteq> outputtext args"
    and "p \<noteq> (if truthy (compressed args) then the (compressed args)
               else rsplit_dot_head (outputtext args) @ ''_compressed.txt'')"
  shows "extract_lists_main L args fs = extract_lists_main L (args\<lparr>blobs_js := None\<rparr>) fs"
proof (cases "rewards args")
  case True
  then have n: "\<not> re_search ''REWARDS_COMPRESSED'' content" using assms(2) by simp
  show ?thesis
    unfolding extract_lists_main_def
    using True assms(3,4)
      extract_and_merge_not_found[where fs = fs and p = p, OF assms(1) n assms(5,6)]
    by simp
next
  case False
  then have n: "\<not> re_search ''LOCATIONS_COMPRESSED'' content" using assms(2) by simp
  show ?thesis
    unfolding extract_lists_main_def
    using False assms(3,4)
      extract_and_merge_not_found[where fs = fs and p = p, OF assms(1) n assms(5,6)]
    by simp
qed

text \<open>
  Claim C8 (amended): when the constant cannot be located in the target file,
  \<open>update_blob_constant\<close> returns \<open>False\<close> and writes nothing. \<open>update_blobs.py\<close> then ends with
  exit status 1 and the file system as it was. \<open>extract_and_merge\<close>,
  \<open>write_yaml_and_compressed\<close> and a run of \<open>extract_lists.py\<close> do not look at the result:
  with a target file other than the files they write, they behave exactly as without
  the publish step, so the text and compressed files they wrote remain in place and the
  exit status is that of the run without the publish step, 0 when it completes.
\<close>

theorem constant_not_found:
  assumes "read_file fs blobs_js_path = Some content" and "\<not> re_search constant_name content"
  shows "update_blob_constant blobs_js_path constant_name compressed_value fs = (False, fs) \<and>
         update_blobs_main L blobs_js_path constant_name src fs = (1, fs) \<and>
         (blobs_js_path \<noteq> output_text \<longrightarrow>
          blobs_js_path \<noteq> (if truthy compressed_output then the compressed_output
                            else rsplit_dot_head output_text @ ''_compressed.txt'') \<longrightarrow>
          extract_and_merge L input_yaml output_text compressed_output extract_func
            (Some constant_name) (Some blobs_js_path) fs =
          extract_and_merge L input_yaml output_text compressed_output extract_func None None fs) \<and>
         (blobs_js_path \<noteq> output_yaml \<longrightarrow>
          blobs_js_path \<noteq> with_suffix_empty L output_yaml @ ''_compressed.txt'' \<longrightarrow>
          write_yaml_and_compressed L obj output_yaml want_compressed
            (Some constant_name) (Some blobs_js_path) fs =
          write_yaml_and_compressed L obj output_yaml want_compressed None None fs) \<and>
         (blobs_js args = Some blobs_js_path \<longrightarrow> blobs_js_path \<noteq> [] \<longrightarrow>
          constant_name = (if rewards args then ''REWARDS_COMPRESSED'' else ''LOCATIONS_COMPRESSED'') \<longrightarrow>
          blobs_js_path \<noteq> outputtext args \<longrightarrow>
          blobs_js_path \<noteq> (if truthy (compressed args) then the (compressed args)
                            else rsplit_dot_head (outputtext args) @ ''_compressed.txt'') \<longrightarrow>
          exit_status (extract_lists_main L args fs) =
          exit_status (extract_lists_main L (args\<lparr>blobs_js := None\<rparr>) fs))"
proof (intro conjI impI)
  show "update_blob_constant blobs_js_path constant_name compressed_value fs = (False, fs)"
    using assms by (rule update_blob_constant_not_found)
  show "update_blobs_main L blobs_js_path constant_name src fs = (1, fs)"
    using assms by (rule update_blobs_main_not_found)
next
  assume "blobs_js_path \<noteq> output_text"
    and "blobs_js_path \<noteq> (if truthy compressed_output then the compressed_output
                            else rsplit_dot_head output_text @ ''_compressed.txt'')"
  then show "extract_and_merge L input_yaml output_text compressed_output extract_func
            (Some constant_name) (Some blobs_js_path) fs =
          extract_and_merge L input_yaml output_text compressed_output extract_func None None fs"
    using assms by (intro extract_and_merge_not_found)
next
  assume "blobs_js_path \<noteq> output_yaml"
    and "blobs_js_path \<noteq> with_suffix_empty L output_yaml @ ''_compressed.txt''"
  then show "write_yaml_and_compressed L obj output_yaml want_compressed
            (Some constant_name) (Some blobs_js_path) fs =
          write_yaml_and_compressed L obj output_yaml want_compressed None None fs"
    using assms by (intro write_yaml_and_compressed_not_found)
next
  assume a: "blobs_js args = Some blobs_js_path" "blobs_js_path \<noteq> []"
    "constant_name = (if rewards args then ''REWARDS_COMPRESSED'' else ''LOCATIONS_COMPRESSED'')"
    "blobs_js_path \<noteq> outputtext args"
    "blobs_js_path \<noteq> (if truthy (compressed args) then the (compressed args)
                            else rsplit_dot_head (outputtext args) @ ''_compressed.txt'')"
  have n: "\<not> re_search (if rewards args then ''REWARDS_COMPRESSED'' else ''LOCATIONS_COMPRESSED'')
             content" using assms(2) a(3) by simp
  have "extract_lists_main L args fs = extract_lists_main L (args\<lparr>blobs_js := None\<rparr>) fs"
    by (rule extract_lists_main_not_found[where fs = fs and p = blobs_js_path,
          OF assms(1) n a(1,2,4,5)])
  then show "exit_status (extract_lists_main L args fs) =
          exit_status (extract_lists_main L (args\<lparr>blobs_js := None\<rparr>) fs)" by simp
qed

theorem constant_not_found_witness:
  "read_file
     [''in.yaml'' \<mapsto> ''state: {unique_rewards: [Beta, gamma]}'',
      ''blobs.js'' \<mapsto> ''const OTHER = '' @ [CHR 0x27] @ ''x'' @ [CHR 0x27] @ '';''] ''blobs.js'' =
     Some (''const OTHER = '' @ [CHR 0x27] @ ''x'' @ [CHR 0x27] @ '';'') \<and>
   \<not> re_search ''REWARDS_COMPRESSED'' (''const OTHER = '' @ [CHR 0x27] @ ''x'' @ [CHR 0x27] @ '';'') \<and>
   update_blob_constant ''blobs.js'' ''REWARDS_COMPRESSED'' ''abc''
     [''in.yaml'' \<mapsto> ''state: {unique_rewards: [Beta, gamma]}'',
      ''blobs.js'' \<mapsto> ''const OTHER = '' @ [CHR 0x27] @ ''x'' @ [CHR 0x27] @ '';''] =
     (False, [''in.yaml'' \<mapsto> ''state: {unique_rewards: [Beta, gamma]}'',
              ''blobs.js'' \<mapsto> ''const OTHER = '' @ [CHR 0x27] @ ''x'' @ [CHR 0x27] @ '';'']) \<and>
   update_blobs_main lib0 ''blobs.js'' ''REWARDS_COMPRESSED'' (Text ''in.yaml'')
     [''in.yaml'' \<mapsto> ''state: {unique_rewards: [Beta, gamma]}'',
      ''blobs.js'' \<mapsto> ''const OTHER = '' @ [CHR 0x27] @ ''x'' @ [CHR 0x27] @ '';''] =
     (1, [''in.yaml'' \<mapsto> ''state: {unique_rewards: [Beta, gamma]}'',
          ''blobs.js'' \<mapsto> ''const OTHER = '' @ [CHR 0x27] @ ''x'' @ [CHR 0x27] @ '';'']) \<and>
   exit_status (extract_lists_main lib0
     \<lparr>inputyaml = ''in.yaml'', outputtext = ''out.txt'', compressed = None, rewards = True,
      blobs_js = Some ''blobs.js''\<rparr>
     [''in.yaml'' \<mapsto> ''state: {unique_rewards: [Beta, gamma]}'',
      ''blobs.js'' \<mapsto> ''const OTHER = '' @ [CHR 0x27] @ ''x'' @ [CHR 0x27] @ '';'']) =
   exit_status (extract_lists_main lib0
     \<lparr>inputyaml = ''in.yaml'', outputtext = ''out.txt'', compressed = None, rewards = True,
      blobs_js = None\<rparr>
     [''in.yaml'' \<mapsto> ''state: {unique_rewards: [Beta, gamma]}'',
      ''blobs.js'' \<mapsto> ''const OTHER = '' @ [CHR 0x27] @ ''x'' @ [CHR 0x27] @ '';''])"
proof -
  let ?content = "''const OTHER = '' @ [CHR 0x27] @ ''x'' @ [CHR 0x27] @ '';''"
  let ?fs = "[''in.yaml'' \<mapsto> ''state: {unique_rewards: [Beta, gamma]}'', ''blobs.js'' \<mapsto> ?content]"
  let ?args = "\<lparr>inputyaml = ''in.yaml'', outputtext = ''out.txt'', compressed = None,
                rewards = True, blobs_js = Some ''blobs.js''\<rparr>"
  have a: "read_file ?fs ''blobs.js'' = Some ?content" by (simp add: read_file_def)
  have b: "\<not> re_search ''REWARDS_COMPRESSED'' ?content" by code_simp
  have e: "''blobs.js'' \<noteq> rsplit_dot_head ''out.txt'' @ ''_compressed.txt''" by code_simp
  from constant_not_found[where fs = "?fs" and blobs_js_path = "''blobs.js''"
      and constant_name = "''REWARDS_COMPRESSED''" and compressed_value = "''abc''"
      and L = lib0 and src = "Text ''in.yaml''" and args = "?args", OF a b] a b e
  show ?thesis by simp
qed

text \<open>
  Claim C8 as stated fails: a run of \<open>extract_lists.py\<close> with a publish step whose constant
  is not in the target file ends with exit status 0; the text file and the compressed
  file it wrote are in place and the target file is as it was.
\<close>

theorem constant_not_found_exit_counterexample:
  "\<not> re_search ''REWARDS_COMPRESSED'' (''const OTHER = '' @ [CHR 0x27] @ ''x'' @ [CHR 0x27] @ '';'') \<and>
   exit_status (extract_lists_main lib0
     \<lparr>inputyaml = ''in.yaml'', outputtext = ''out.txt'', compressed = None, rewards = True,
      blobs_js = Some ''blobs.js''\<rparr>
     [''in.yaml'' \<mapsto> ''state: {unique_rewards: [Beta, gamma]}'',
      ''blobs.js'' \<mapsto> ''const OTHER = '' @ [CHR 0x27] @ ''x'' @ [CHR 0x27] @ '';'']) = 0 \<and>
   (case extract_lists_main lib0
     \<lparr>inputyaml = ''in.yaml'', outputtext = ''out.txt'', compressed = None, rewards = True,
      blobs_js = Some ''blobs.js''\<rparr>
     [''in.yaml'' \<mapsto> ''state: {unique_rewards: [Beta, gamma]}'',
      ''blobs.js'' \<mapsto> ''const OTHER = '' @ [CHR 0x27] @ ''x'' @ [CHR 0x27] @ '';''] of
      Inl e \<Rightarrow> None
    | Inr fs' \<Rightarrow> Some (fs' ''out.txt'', fs' ''out_compressed.txt'', fs' ''blobs.js'')) =
   Some (Some (''Beta'' @ [CHR 0x0A] @ ''gamma'' @ [CHR 0x0A]),
         Some (zlib_b64 lib0 ''Beta,gamma''),
         Some (''const OTHER = '' @ [CHR 0x27] @ ''x'' @ [CHR 0x27] @ '';''))"
  by code_simp

end
